theory Spec2Isabelle
  imports Complex_Main
begin

section \<open>Data model of \<^verbatim>\<open>bedshift.py\<close>\<close>

text \<open>
  The class \<^verbatim>\<open>Bedshift\<close> keeps a pandas DataFrame \<^verbatim>\<open>self.bed\<close> with the four
  columns 0 (chromosome), 1 (start), 2 (end) and 3 (the modification mark: \<^verbatim>\<open>'-'\<close>,
  \<^verbatim>\<open>'A'\<close>, \<^verbatim>\<open>'S'\<close>, \<^verbatim>\<open>'C'\<close>, \<^verbatim>\<open>'M'\<close>). A row is a record; coordinates are
  Python integers, hence \<open>int\<close>.

  Every method that assigns \<^verbatim>\<open>self.bed\<close> ends with \<^verbatim>\<open>reset_index(drop=True)\<close> or
  \<^verbatim>\<open>append(..., ignore_index=True)\<close>, and so does the constructor; the index of the
  frame is therefore always \<^verbatim>\<open>0 .. n-1\<close> when a method is entered. A frame is a list of
  rows and the label of a row is its position.
\<close>

record region =
  r_chrom :: string
  r_start :: int
  r_end :: int
  r_tag :: string

text \<open>
  Failures. \<^verbatim>\<open>sys.exit(1)\<close> after \<^verbatim>\<open>_LOGGER.error\<close> is told apart by the message
  logged: "Rate must be ..." is \<open>InvalidRate\<close>, "chrom.sizes file must be specified ..."
  is \<open>MissingChromosomeLengths\<close>, "The number of overlapping regions ... is {} but
  the shift ratio provided is trying to shift {} regions" is \<open>InsufficientOverlap\<close>
  (available, requested), and the two exits of \<^verbatim>\<open>read_bed\<close> are \<open>UnreadableInput\<close>.
  \<^verbatim>\<open>Exception("no intersection found ...")\<close> is \<open>NoOverlapFound\<close>. \<open>KeyError\<close>,
  \<open>ValueError\<close>, \<open>IndexError\<close> and \<open>OverflowError\<close> are the Python exceptions of
  those names, raised by pandas, \<^verbatim>\<open>dict\<close>, \<^verbatim>\<open>random\<close>, \<^verbatim>\<open>numpy.random\<close> and
  the conversions between \<^verbatim>\<open>int\<close> and \<^verbatim>\<open>float\<close>.
\<close>

datatype error =
    InvalidRate
  | MissingChromosomeLengths
  | InsufficientOverlap nat int
  | NoOverlapFound
  | UnreadableInput
  | KeyError
  | ValueError
  | IndexError
  | OverflowError

text \<open>The two \<^verbatim>\<open>_LOGGER.warning\<close> calls, with the numbers they report.\<close>

datatype warning =
    ShiftOutOfBounds int
  | DropClamped int nat

text \<open>
  The state a method runs in: the attributes of the object
  (\<^verbatim>\<open>chrom_lens\<close>, an insertion-ordered dict, as an association list;
  \<^verbatim>\<open>chrom_weights\<close>; \<^verbatim>\<open>original_bed\<close>; \<^verbatim>\<open>bed\<close>) and the environment it reads
  and writes: the BED files on disk (\<open>files\<close>, a path with the table
  \<^verbatim>\<open>pandas.read_csv\<close> parses from it, header line already removed), the state of
  Python's \<^verbatim>\<open>random\<close> module and of \<^verbatim>\<open>numpy.random\<close> (two separate generators, each
  a tape of the integers still to be drawn; an exhausted tape yields 0), and the
  warnings logged so far.

  A floating-point number (a rate, a mean, a standard deviation) is the real number it
  denotes. The product \<^verbatim>\<open>rows * rate\<close> is rounded as a double in \<^verbatim>\<open>drop\<close> and
  \<^verbatim>\<open>add\<close> (\<open>rate_count\<close> below); the other operators take it exactly.
\<close>

record state =
  chrom_lens :: "(string \<times> int) list"
  chrom_weights :: "real list"
  original_bed :: "region list"
  bed :: "region list"
  files :: "(string \<times> region list) list"
  py_random :: "int list"
  np_random :: "int list"
  warnings :: "warning list"

section \<open>Library calls\<close>

text \<open>\<^verbatim>\<open>int(x)\<close> on a float truncates towards zero.\<close>

definition py_int :: "real \<Rightarrow> int" where
  "py_int x = (if 0 \<le> x then \<lfloor>x\<rfloor> else \<lceil>x\<rceil>)"

text \<open>
  Double arithmetic, for \<^verbatim>\<open>int(rows * rate)\<close> in \<^verbatim>\<open>drop\<close> and \<^verbatim>\<open>add\<close>.
  \<open>bit_length\<close> is \<^verbatim>\<open>int.bit_length\<close>. A double has a significand of 53 bits:
  a positive real \<open>x\<close> with \<open>2\<^sup>b\<^sup>-\<^sup>1 \<le> x < 2\<^sup>b\<close> is rounded to the nearest multiple of
  \<open>2\<^sup>u\<close>, \<open>u = b - 53\<close> (not below \<open>-1074\<close>, the exponent of the subnormal
  doubles), a tie going to the even multiple. For \<open>x \<ge> 1\<close>, \<open>b\<close> is the bit length of the
  integer part; for \<open>x < 1\<close> it is read off the integer part of \<open>1 / x\<close> (a power of two
  gets the finer grid of the interval below it, on which it lies as well). A result of
  \<open>2\<^sup>1\<^sup>0\<^sup>2\<^sup>4\<close> or more is infinite: \<open>None\<close>.
\<close>

fun bit_length :: "nat \<Rightarrow> nat" where
  "bit_length n = (if n = 0 then 0 else Suc (bit_length (n div 2)))"

declare bit_length.simps [simp del]

definition round_half_even :: "real \<Rightarrow> int" where
  "round_half_even x =
     (let f = \<lfloor>x\<rfloor>; d = x - of_int f in
      if d < 1 / 2 then f else if 1 / 2 < d then f + 1 else if even f then f else f + 1)"

definition pow2 :: "int \<Rightarrow> real" where
  "pow2 e = (if 0 \<le> e then 2 ^ nat e else 1 / 2 ^ nat (- e))"

definition ulp_exponent :: "real \<Rightarrow> int" where
  "ulp_exponent x =
     (if 1 \<le> x then int (bit_length (nat \<lfloor>x\<rfloor>)) - 53
      else max (- 1074) (- 52 - int (bit_length (nat \<lfloor>1 / x\<rfloor>))))"

definition double_round :: "real \<Rightarrow> real option" where
  "double_round x =
     (if x = 0 then Some 0
      else (let u = ulp_exponent \<bar>x\<bar>;
                y = real_of_int (round_half_even (\<bar>x\<bar> / pow2 u)) * pow2 u
            in if 2 ^ 1024 \<le> y then None else Some (sgn x * y)))"

text \<open>
  \<^verbatim>\<open>rows * rate\<close> with an \<^verbatim>\<open>int\<close> and a \<^verbatim>\<open>float\<close>: the integer is converted to a
  double and the product of the two doubles is rounded to a double. \<^verbatim>\<open>int\<close> of the
  product truncates it. An integer too large for a double and an infinite product both
  end in \<^verbatim>\<open>OverflowError\<close>. The rate is a float, as the command line parses it: a
  real number that is not a double, such as 0.58, stands for the double nearest to it,
  the one \<^verbatim>\<open>float('0.58')\<close> gives, so the rate is rounded as well; rounding leaves a
  double as it is. (With an \<^verbatim>\<open>int\<close> rate Python multiplies exactly, which is the same
  number as long as the product is at most \<open>2\<^sup>5\<^sup>3\<close>.)
\<close>

definition int_times_float :: "nat \<Rightarrow> real \<Rightarrow> real option" where
  "int_times_float rows rate =
     (case double_round (real rows) of
        None \<Rightarrow> None
      | Some r \<Rightarrow>
          (case double_round rate of
             None \<Rightarrow> None
           | Some q \<Rightarrow> double_round (r * q)))"

definition rate_count :: "nat \<Rightarrow> real \<Rightarrow> error + int" where
  "rate_count rows rate =
     (case int_times_float rows rate of
        None \<Rightarrow> Inl OverflowError
      | Some p \<Rightarrow> Inr (py_int p))"

text \<open>\<^verbatim>\<open>d[k]\<close> on a dict raises \<^verbatim>\<open>KeyError\<close> for a missing key.\<close>

definition dict_get :: "('k \<times> 'v) list \<Rightarrow> 'k \<Rightarrow> error + 'v" where
  "dict_get d k = (case map_of d k of None \<Rightarrow> Inl KeyError | Some v \<Rightarrow> Inr v)"

text \<open>\<^verbatim>\<open>df.loc[row]\<close>: the row with that label, \<^verbatim>\<open>KeyError\<close> when there is none.\<close>

definition df_loc :: "region list \<Rightarrow> nat \<Rightarrow> error + region" where
  "df_loc df row = (if row < length df then Inr (df ! row) else Inl KeyError)"

text \<open>
  \<^verbatim>\<open>df.drop(labels)\<close>: the frame without the rows that carry one of the labels
  (a label may be listed twice); \<^verbatim>\<open>KeyError\<close> when a label is not in the index.
  The rows left keep their order; the callers reset the index.
\<close>

definition df_drop :: "region list \<Rightarrow> nat list \<Rightarrow> error + region list" where
  "df_drop df labels =
     (if list_all (\<lambda>l. l < length df) labels
      then Inr (map snd (filter (\<lambda>(i, r). i \<notin> set labels) (enumerate 0 df)))
      else Inl KeyError)"

text \<open>One draw from a tape.\<close>

fun draw :: "int list \<Rightarrow> int \<times> int list" where
  "draw [] = (0, [])"
| "draw (t # ts) = (t, ts)"

text \<open>
  \<^verbatim>\<open>random.sample(population, k)\<close>: \<^verbatim>\<open>ValueError\<close> when \<open>k\<close> is negative or larger
  than the population; otherwise \<open>k\<close> draws, each selecting one element of the pool of
  elements not selected yet, which leaves the pool. Every list of \<open>k\<close> distinct positions
  is the result for some tape. No draw is made for \<open>k = 0\<close>.
\<close>

fun sample_loop :: "'a list \<Rightarrow> nat \<Rightarrow> int list \<Rightarrow> 'a list \<times> int list" where
  "sample_loop pool 0 tape = ([], tape)"
| "sample_loop pool (Suc k) tape =
     (case draw tape of
        (t, tape1) \<Rightarrow>
          (let j = nat (t mod int (length pool)) in
           case sample_loop (take j pool @ drop (Suc j) pool) k tape1 of
             (result, tape2) \<Rightarrow> (pool ! j # result, tape2)))"

definition random_sample :: "'a list \<Rightarrow> int \<Rightarrow> state \<Rightarrow> (error + 'a list) \<times> state" where
  "random_sample population k s =
     (if k < 0 \<or> int (length population) < k then (Inl ValueError, s)
      else (case sample_loop population (nat k) (py_random s) of
              (result, tape) \<Rightarrow> (Inr result, s\<lparr>py_random := tape\<rparr>)))"

text \<open>
  \<^verbatim>\<open>random.choices(population, weights=w, k=n)\<close>: \<open>n\<close> picks with replacement.
  \<^verbatim>\<open>ValueError\<close> when the number of weights is not the size of the population or
  their total is not positive, \<^verbatim>\<open>IndexError\<close> (from \<^verbatim>\<open>cum_weights[-1]\<close>) when both
  are empty. A pick draws \<^verbatim>\<open>random()\<close>, a multiple of \<open>2\<^sup>-\<^sup>5\<^sup>3\<close> in \<open>[0, 1)\<close>, and
  takes the element at \<^verbatim>\<open>bisect(cum_weights, random() * total, 0, n - 1)\<close>; for
  cumulative weights, which do not decrease, that is the number of them that are at
  most the value, capped at \<open>n - 1\<close>.
\<close>

fun accumulate :: "real \<Rightarrow> real list \<Rightarrow> real list" where
  "accumulate acc [] = []"
| "accumulate acc (w # ws) = (acc + w) # accumulate (acc + w) ws"

definition bisect :: "real list \<Rightarrow> real \<Rightarrow> nat \<Rightarrow> nat" where
  "bisect a x hi = min (length (takeWhile (\<lambda>c. c \<le> x) a)) hi"

fun choices_loop :: "'a list \<Rightarrow> real list \<Rightarrow> nat \<Rightarrow> int list \<Rightarrow> 'a list \<times> int list" where
  "choices_loop population cum_weights 0 tape = ([], tape)"
| "choices_loop population cum_weights (Suc k) tape =
     (case draw tape of
        (t, tape1) \<Rightarrow>
          (let u = real_of_int (t mod 9007199254740992) / 9007199254740992;
               i = bisect cum_weights (u * last cum_weights) (length population - 1) in
           case choices_loop population cum_weights k tape1 of
             (result, tape2) \<Rightarrow> (population ! i # result, tape2)))"

definition random_choices ::
  "'a list \<Rightarrow> real list \<Rightarrow> int \<Rightarrow> state \<Rightarrow> (error + 'a list) \<times> state" where
  "random_choices population weights k s =
     (let cum_weights = accumulate 0 weights in
      if length cum_weights \<noteq> length population then (Inl ValueError, s)
      else if cum_weights = [] then (Inl IndexError, s)
      else if last cum_weights \<le> 0 then (Inl ValueError, s)
      else (case choices_loop population cum_weights (nat k) (py_random s) of
              (result, tape) \<Rightarrow> (Inr result, s\<lparr>py_random := tape\<rparr>)))"

text \<open>
  \<^verbatim>\<open>random.randint(a, b)\<close>: \<^verbatim>\<open>ValueError\<close> on an empty range, otherwise one draw, a
  value of \<open>[a, b]\<close>.
\<close>

definition random_randint :: "int \<Rightarrow> int \<Rightarrow> state \<Rightarrow> (error + int) \<times> state" where
  "random_randint a b s =
     (if b < a then (Inl ValueError, s)
      else (case draw (py_random s) of
              (t, tape) \<Rightarrow> (Inr (a + t mod (b - a + 1)), s\<lparr>py_random := tape\<rparr>)))"

text \<open>
  \<^verbatim>\<open>int(np.random.normal(loc, scale))\<close>: \<^verbatim>\<open>ValueError\<close> for a negative scale,
  otherwise one draw from numpy's generator. The variate is a float and \<^verbatim>\<open>int\<close>
  truncates it; the tape holds the truncated value, which may be any integer (the
  mean and the deviation shape the distribution only).
\<close>

definition normal_int :: "real \<Rightarrow> real \<Rightarrow> state \<Rightarrow> (error + int) \<times> state" where
  "normal_int loc scale s =
     (if scale < 0 then (Inl ValueError, s)
      else (case draw (np_random s) of
              (t, tape) \<Rightarrow> (Inr t, s\<lparr>np_random := tape\<rparr>)))"

text \<open>
  \<^verbatim>\<open>df.loc[labels]\<close> with a list of labels: the rows in the order of the labels.
\<close>

definition df_loc_rows :: "region list \<Rightarrow> nat list \<Rightarrow> error + region list" where
  "df_loc_rows df labels =
     (if list_all (\<lambda>l. l < length df) labels then Inr (map (\<lambda>l. df ! l) labels)
      else Inl KeyError)"

text \<open>
  Modelled from the spec: the overlap test of section 4.2. The code calls
  \<^verbatim>\<open>pyranges.PyRanges.overlap(how='first')\<close>, a library that is not part of the
  repository. Two regions overlap as half-open intervals of one chromosome.
\<close>

definition overlaps :: "region \<Rightarrow> region \<Rightarrow> bool" where
  "overlaps r c = (r_chrom r = r_chrom c \<and> r_start r < r_end c \<and> r_start c < r_end r)"

text \<open>
  Modelled from the spec: the Overlap Resolver of section 4.2, in place of the same
  library call. The result holds every region of the reference set that overlaps a
  region of the comparison set, once, in the order of the reference set and under the
  label (the position) it has there.
\<close>

definition pr_overlap_first :: "region list \<Rightarrow> region list \<Rightarrow> (nat \<times> region) list" where
  "pr_overlap_first reference_bed comparison_bed =
     filter (\<lambda>(i, r). list_ex (overlaps r) comparison_bed) (enumerate 0 reference_bed)"

section \<open>The operators\<close>

text \<open>\<^verbatim>\<open>Bedshift._precheck\<close>\<close>

definition precheck :: "real \<Rightarrow> bool \<Rightarrow> bool \<Rightarrow> state \<Rightarrow> error + unit" where
  "precheck rate requiresChromLens isAdd s =
     (if isAdd \<and> rate < 0 then Inl InvalidRate
      else if \<not> isAdd \<and> (rate < 0 \<or> rate > 1) then Inl InvalidRate
      else if requiresChromLens \<and> length (chrom_lens s) = 0 then Inl MissingChromosomeLengths
      else Inr ())"

text \<open>
  \<^verbatim>\<open>Bedshift.read_bed\<close>: the table of the file with the mark \<^verbatim>\<open>'-'\<close> in column 3;
  a file that is missing or cannot be parsed ends the program.
\<close>

definition read_bed :: "state \<Rightarrow> string \<Rightarrow> error + region list" where
  "read_bed s bedfile_path =
     (case map_of (files s) bedfile_path of
        None \<Rightarrow> Inl UnreadableInput
      | Some df \<Rightarrow> Inr (map (\<lambda>r. r\<lparr>r_tag := ''-''\<rparr>) df))"

text \<open>
  \<^verbatim>\<open>Bedshift._find_overlap\<close>, called with a path and no reference: the reference is a
  copy of \<^verbatim>\<open>self.original_bed\<close>.
\<close>

definition find_overlap :: "string \<Rightarrow> state \<Rightarrow> error + (nat \<times> region) list" where
  "find_overlap fp s =
     (let reference_bed = original_bed s in
      case read_bed s fp of
        Inl e \<Rightarrow> Inl e
      | Inr comparison_bed \<Rightarrow>
          (let intersection = pr_overlap_first reference_bed comparison_bed in
           if length intersection = 0 then Inl NoOverlapFound else Inr intersection))"

text \<open>
  \<^verbatim>\<open>Bedshift._read_chromsizes\<close>, its last two lines: the weight of a chromosome is
  its length divided by the total length. (The division fails when the total is 0;
  the weights are used below for maps of positive lengths only.)
\<close>

definition read_chromsizes_weights :: "(string \<times> int) list \<Rightarrow> real list" where
  "read_chromsizes_weights lens =
     (let total_len = sum_list (map snd lens) in
      map (\<lambda>(chrom, chrom_len). real_of_int chrom_len / real_of_int total_len) lens)"

text \<open>\<^verbatim>\<open>Bedshift.pick_random_chroms\<close>\<close>

fun lookup_all :: "(string \<times> int) list \<Rightarrow> string list \<Rightarrow> error + int list" where
  "lookup_all d [] = Inr []"
| "lookup_all d (chrom_str # rest) =
     (case dict_get d chrom_str of
        Inl e \<Rightarrow> Inl e
      | Inr chrom_len \<Rightarrow>
          (case lookup_all d rest of Inl e \<Rightarrow> Inl e | Inr ls \<Rightarrow> Inr (chrom_len # ls)))"

definition pick_random_chroms :: "int \<Rightarrow> state \<Rightarrow> (error + (string \<times> int) list) \<times> state" where
  "pick_random_chroms n s =
     (case random_choices (map fst (chrom_lens s)) (chrom_weights s) n s of
        (Inl e, s1) \<Rightarrow> (Inl e, s1)
      | (Inr chrom_strs, s1) \<Rightarrow>
          (case lookup_all (chrom_lens s1) chrom_strs of
             Inl e \<Rightarrow> (Inl e, s1)
           | Inr lens \<Rightarrow> (Inr (zip chrom_strs lens), s1)))"

text \<open>\<^verbatim>\<open>Bedshift.add\<close>; \<open>add_loop\<close> is its \<^verbatim>\<open>for\<close> loop.\<close>

fun add_loop ::
  "(string \<times> int) list \<Rightarrow> real \<Rightarrow> real \<Rightarrow> region list \<Rightarrow> state \<Rightarrow> (error + region list) \<times> state" where
  "add_loop [] addmean addstdev new_regions s = (Inr new_regions, s)"
| "add_loop ((chrom_str, chrom_len) # rest) addmean addstdev new_regions s =
     (case random_randint 1 chrom_len s of
        (Inl e, s1) \<Rightarrow> (Inl e, s1)
      | (Inr start, s1) \<Rightarrow>
          (case normal_int addmean addstdev s1 of
             (Inl e, s2) \<Rightarrow> (Inl e, s2)
           | (Inr len, s2) \<Rightarrow>
               add_loop rest addmean addstdev
                 (new_regions @
                    [\<lparr>r_chrom = chrom_str, r_start = start,
                      r_end = min (start + len) chrom_len, r_tag = ''A''\<rparr>])
                 s2))"

definition add :: "real \<Rightarrow> real \<Rightarrow> real \<Rightarrow> state \<Rightarrow> (error + int) \<times> state" where
  "add addrate addmean addstdev s =
     (case precheck addrate True True s of
        Inl e \<Rightarrow> (Inl e, s)
      | Inr _ \<Rightarrow>
          (let rows = length (bed s) in
           case rate_count rows addrate of
             Inl e \<Rightarrow> (Inl e, s)
           | Inr num_add \<Rightarrow>
               (case pick_random_chroms num_add s of
                  (Inl e, s1) \<Rightarrow> (Inl e, s1)
                | (Inr random_chroms, s1) \<Rightarrow>
                    (case add_loop random_chroms addmean addstdev [] s1 of
                       (Inl e, s2) \<Rightarrow> (Inl e, s2)
                     | (Inr new_regions, s2) \<Rightarrow>
                         (Inr num_add, s2\<lparr>bed := bed s2 @ new_regions\<rparr>)))))"

text \<open>\<^verbatim>\<open>Bedshift.add_from_file\<close>\<close>

definition add_from_file :: "string \<Rightarrow> real \<Rightarrow> state \<Rightarrow> (error + int) \<times> state" where
  "add_from_file fp addrate s =
     (case precheck addrate True True s of
        Inl e \<Rightarrow> (Inl e, s)
      | Inr _ \<Rightarrow>
          (let rows = length (bed s); num_add0 = py_int (real rows * addrate) in
           case read_bed s fp of
             Inl e \<Rightarrow> (Inl e, s)
           | Inr df \<Rightarrow>
               (let num_add = (if num_add0 > int (length df) then int (length df) else num_add0) in
                case random_sample [0..<length df] num_add s of
                  (Inl e, s1) \<Rightarrow> (Inl e, s1)
                | (Inr add_rows, s1) \<Rightarrow>
                    (case df_loc_rows df add_rows of
                       Inl e \<Rightarrow> (Inl e, s1)
                     | Inr add_df \<Rightarrow>
                         (Inr num_add,
                          s1\<lparr>bed := bed s1 @ map (\<lambda>r. r\<lparr>r_tag := ''A''\<rparr>) add_df\<rparr>)))))"

text \<open>
  \<^verbatim>\<open>Bedshift._shift\<close>: the shift is drawn first, then the row and the length of its
  chromosome are read. \<open>None\<close> is the pair \<^verbatim>\<open>(None, None)\<close>.
\<close>

definition shift_row ::
  "nat \<Rightarrow> real \<Rightarrow> real \<Rightarrow> state \<Rightarrow> (error + (nat \<times> region) option) \<times> state" where
  "shift_row row mean stdev s =
     (case normal_int mean stdev s of
        (Inl e, s1) \<Rightarrow> (Inl e, s1)
      | (Inr theshift, s1) \<Rightarrow>
          (case df_loc (bed s1) row of
             Inl e \<Rightarrow> (Inl e, s1)
           | Inr r \<Rightarrow>
               (case dict_get (chrom_lens s1) (r_chrom r) of
                  Inl e \<Rightarrow> (Inl e, s1)
                | Inr chrom_len \<Rightarrow>
                    if r_start r + theshift < 0 \<or> r_end r + theshift > chrom_len
                    then (Inr None, s1)
                    else (Inr (Some (row,
                            \<lparr>r_chrom = r_chrom r, r_start = r_start r + theshift,
                             r_end = r_end r + theshift, r_tag = ''S''\<rparr>)), s1))))"

text \<open>
  \<^verbatim>\<open>Bedshift.shift\<close>; \<open>shift_loop\<close> is its \<^verbatim>\<open>for\<close> loop over the candidate rows, with
  the four variables it updates: \<^verbatim>\<open>new_row_list\<close>, \<^verbatim>\<open>to_drop\<close>, \<^verbatim>\<open>num_shifted\<close> and
  \<^verbatim>\<open>invalid_shifted\<close>.
\<close>

fun shift_loop ::
  "nat list \<Rightarrow> real \<Rightarrow> real \<Rightarrow> region list \<times> nat list \<times> int \<times> int \<Rightarrow> state \<Rightarrow>
   (error + region list \<times> nat list \<times> int \<times> int) \<times> state" where
  "shift_loop [] mean stdev acc s = (Inr acc, s)"
| "shift_loop (row # rest) mean stdev (new_row_list, to_drop, num_shifted, invalid_shifted) s =
     (case shift_row row mean stdev s of
        (Inl e, s1) \<Rightarrow> (Inl e, s1)
      | (Inr None, s1) \<Rightarrow>
          shift_loop rest mean stdev (new_row_list, to_drop, num_shifted, invalid_shifted + 1) s1
      | (Inr (Some (drop_row, new_region)), s1) \<Rightarrow>
          shift_loop rest mean stdev
            (new_row_list @ [new_region], to_drop @ [drop_row], num_shifted + 1, invalid_shifted) s1)"

definition shift ::
  "real \<Rightarrow> real \<Rightarrow> real \<Rightarrow> nat list option \<Rightarrow> state \<Rightarrow> (error + int) \<times> state" where
  "shift shiftrate shiftmean shiftstdev shift_rows s =
     (case precheck shiftrate True False s of
        Inl e \<Rightarrow> (Inl e, s)
      | Inr _ \<Rightarrow>
          (let rows = length (bed s) in
           case (case shift_rows of
                   None \<Rightarrow> random_sample [0..<rows] (py_int (real rows * shiftrate)) s
                 | Some l \<Rightarrow> (Inr l, s)) of
             (Inl e, s1) \<Rightarrow> (Inl e, s1)
           | (Inr candidates, s1) \<Rightarrow>
               (case shift_loop candidates shiftmean shiftstdev ([], [], 0, 0) s1 of
                  (Inl e, s2) \<Rightarrow> (Inl e, s2)
                | (Inr (new_row_list, to_drop, num_shifted, invalid_shifted), s2) \<Rightarrow>
                    (case df_drop (bed s2) to_drop of
                       Inl e \<Rightarrow> (Inl e, s2)
                     | Inr b \<Rightarrow>
                         (let s3 = s2\<lparr>bed := b\<rparr>;
                              s4 = s3\<lparr>bed := bed s3 @ new_row_list\<rparr>;
                              s5 = (if invalid_shifted > 0
                                    then s4\<lparr>warnings := warnings s4 @ [ShiftOutOfBounds invalid_shifted]\<rparr>
                                    else s4)
                          in (Inr num_shifted, s5))))))"

text \<open>
  \<^verbatim>\<open>Bedshift.shift_from_file\<close>. The \<^verbatim>\<open>try\<close> block holds both the sampling and the
  call of \<^verbatim>\<open>shift\<close>, so a \<^verbatim>\<open>ValueError\<close> of either ends in the exit that reports the
  number of overlapping regions and the number requested.
\<close>

definition shift_from_file ::
  "string \<Rightarrow> real \<Rightarrow> real \<Rightarrow> real \<Rightarrow> state \<Rightarrow> (error + int) \<times> state" where
  "shift_from_file fp shiftrate shiftmean shiftstdev s =
     (case precheck shiftrate False False s of
        Inl e \<Rightarrow> (Inl e, s)
      | Inr _ \<Rightarrow>
          (let rows = length (bed s); num_shift = py_int (real rows * shiftrate) in
           case read_bed s fp of
             Inl e \<Rightarrow> (Inl e, s)
           | Inr shift_bed \<Rightarrow>
               (case find_overlap fp s of
                  Inl e \<Rightarrow> (Inl e, s)
                | Inr intersect_regions \<Rightarrow>
                    (case random_sample [0..<length intersect_regions] num_shift s of
                       (Inl e, s1) \<Rightarrow>
                         (Inl (if e = ValueError
                               then InsufficientOverlap (length intersect_regions) num_shift
                               else e), s1)
                     | (Inr rows2shift, s1) \<Rightarrow>
                         (case shift shiftrate shiftmean shiftstdev (Some rows2shift) s1 of
                            (Inl e, s2) \<Rightarrow>
                              (Inl (if e = ValueError
                                    then InsufficientOverlap (length intersect_regions) num_shift
                                    else e), s2)
                          | (Inr n, s2) \<Rightarrow> (Inr n, s2))))))"

text \<open>
  \<^verbatim>\<open>Bedshift._cut\<close>: the cut point is the middle of the region, moved by 10 when it
  falls on an end (the second test reads the point the first test may have moved).
\<close>

definition cut_point :: "int \<Rightarrow> int \<Rightarrow> int" where
  "cut_point start end_pos =
     (let thecut = (start + end_pos) div 2;
          thecut = (if thecut \<le> start then start + 10 else thecut);
          thecut = (if thecut \<ge> end_pos then end_pos - 10 else thecut)
      in thecut)"

definition cut_row :: "nat \<Rightarrow> state \<Rightarrow> error + nat \<times> region list" where
  "cut_row row s =
     (case df_loc (bed s) row of
        Inl e \<Rightarrow> Inl e
      | Inr r \<Rightarrow>
          (let thecut = cut_point (r_start r) (r_end r) in
           Inr (row,
                [\<lparr>r_chrom = r_chrom r, r_start = r_start r, r_end = thecut, r_tag = ''C''\<rparr>,
                 \<lparr>r_chrom = r_chrom r, r_start = thecut, r_end = r_end r, r_tag = ''C''\<rparr>])))"

text \<open>\<^verbatim>\<open>Bedshift.cut\<close>; \<open>cut_loop\<close> is its \<^verbatim>\<open>for\<close> loop.\<close>

fun cut_loop ::
  "nat list \<Rightarrow> region list \<times> nat list \<Rightarrow> state \<Rightarrow> error + region list \<times> nat list" where
  "cut_loop [] acc s = Inr acc"
| "cut_loop (row # rest) (new_row_list, to_drop) s =
     (case cut_row row s of
        Inl e \<Rightarrow> Inl e
      | Inr (drop_row, new_regions) \<Rightarrow>
          cut_loop rest (new_row_list @ new_regions, to_drop @ [drop_row]) s)"

definition cut_op :: "real \<Rightarrow> state \<Rightarrow> (error + int) \<times> state" where
  "cut_op cutrate s =
     (case precheck cutrate False False s of
        Inl e \<Rightarrow> (Inl e, s)
      | Inr _ \<Rightarrow>
          (let rows = length (bed s) in
           case random_sample [0..<rows] (py_int (real rows * cutrate)) s of
             (Inl e, s1) \<Rightarrow> (Inl e, s1)
           | (Inr cut_rows, s1) \<Rightarrow>
               (case cut_loop cut_rows ([], []) s1 of
                  Inl e \<Rightarrow> (Inl e, s1)
                | Inr (new_row_list, to_drop) \<Rightarrow>
                    (case df_drop (bed s1) to_drop of
                       Inl e \<Rightarrow> (Inl e, s1)
                     | Inr b \<Rightarrow>
                         (let s2 = s1\<lparr>bed := b\<rparr>;
                              s3 = s2\<lparr>bed := bed s2 @ new_row_list\<rparr>
                          in (Inr (int (length cut_rows)), s3))))))"

text \<open>
  \<^verbatim>\<open>Bedshift._merge\<close>: \<^verbatim>\<open>([], None)\<close> when the next label is not in the index or the
  two rows lie on different chromosomes.
\<close>

definition merge_row :: "nat \<Rightarrow> state \<Rightarrow> error + nat list \<times> region option" where
  "merge_row row s =
     (if \<not> row + 1 < length (bed s) then Inr ([], None)
      else (case df_loc (bed s) row of
              Inl e \<Rightarrow> Inl e
            | Inr r \<Rightarrow>
                (case df_loc (bed s) (row + 1) of
                   Inl e \<Rightarrow> Inl e
                 | Inr r' \<Rightarrow>
                     if r_chrom r \<noteq> r_chrom r' then Inr ([], None)
                     else Inr ([row, row + 1],
                               Some \<lparr>r_chrom = r_chrom r, r_start = r_start r,
                                     r_end = r_end r', r_tag = ''M''\<rparr>))))"

text \<open>\<^verbatim>\<open>Bedshift.merge\<close>; \<open>merge_loop\<close> is its \<^verbatim>\<open>for\<close> loop.\<close>

fun merge_loop ::
  "nat list \<Rightarrow> region list \<times> nat list \<Rightarrow> state \<Rightarrow> error + region list \<times> nat list" where
  "merge_loop [] acc s = Inr acc"
| "merge_loop (row # rest) (to_add, to_drop) s =
     (case merge_row row s of
        Inl e \<Rightarrow> Inl e
      | Inr (drop_row, add_row) \<Rightarrow>
          merge_loop rest
            ((case add_row of None \<Rightarrow> to_add | Some r \<Rightarrow> to_add @ [r]), to_drop @ drop_row) s)"

definition merge :: "real \<Rightarrow> state \<Rightarrow> (error + int) \<times> state" where
  "merge mergerate s =
     (case precheck mergerate False False s of
        Inl e \<Rightarrow> (Inl e, s)
      | Inr _ \<Rightarrow>
          (let rows = length (bed s) in
           case random_sample [0..<rows] (py_int (real rows * mergerate)) s of
             (Inl e, s1) \<Rightarrow> (Inl e, s1)
           | (Inr merge_rows, s1) \<Rightarrow>
               (case merge_loop merge_rows ([], []) s1 of
                  Inl e \<Rightarrow> (Inl e, s1)
                | Inr (to_add, to_drop) \<Rightarrow>
                    (case df_drop (bed s1) to_drop of
                       Inl e \<Rightarrow> (Inl e, s1)
                     | Inr b \<Rightarrow>
                         (let s2 = s1\<lparr>bed := b\<rparr>;
                              s3 = s2\<lparr>bed := bed s2 @ to_add\<rparr>
                          in (Inr (int (length merge_rows)), s3))))))"

text \<open>\<^verbatim>\<open>Bedshift.drop\<close>\<close>

definition drop_op :: "real \<Rightarrow> state \<Rightarrow> (error + int) \<times> state" where
  "drop_op droprate s =
     (case precheck droprate False False s of
        Inl e \<Rightarrow> (Inl e, s)
      | Inr _ \<Rightarrow>
          (let rows = length (bed s) in
           case rate_count rows droprate of
             Inl e \<Rightarrow> (Inl e, s)
           | Inr k \<Rightarrow>
               (case random_sample [0..<rows] k s of
                  (Inl e, s1) \<Rightarrow> (Inl e, s1)
                | (Inr drop_rows, s1) \<Rightarrow>
                    (case df_drop (bed s1) drop_rows of
                       Inl e \<Rightarrow> (Inl e, s1)
                     | Inr b \<Rightarrow> (Inr (int (length drop_rows)), s1\<lparr>bed := b\<rparr>)))))"

text \<open>
  \<^verbatim>\<open>Bedshift.drop_from_file\<close>: its own test of the rate (negative rates only), the
  return for a rate of 0, and \<^verbatim>\<open>intersect_regions.index[rows2drop]\<close>, the labels of
  the sampled rows of the intersection.
\<close>

definition drop_from_file :: "string \<Rightarrow> real \<Rightarrow> state \<Rightarrow> (error + int) \<times> state" where
  "drop_from_file fp droprate s =
     (if droprate < 0 then (Inl InvalidRate, s)
      else if droprate = 0 then (Inr 0, s)
      else
        (let rows = length (bed s); num_drop0 = py_int (real rows * droprate) in
         case read_bed s fp of
           Inl e \<Rightarrow> (Inl e, s)
         | Inr drop_bed \<Rightarrow>
             (let drop_rows = length drop_bed;
                  clamp = (num_drop0 \<ge> int drop_rows);
                  num_drop = (if clamp then int drop_rows else num_drop0);
                  s0 = (if clamp then s\<lparr>warnings := warnings s @ [DropClamped num_drop0 drop_rows]\<rparr>
                        else s)
              in case find_overlap fp s0 of
                   Inl e \<Rightarrow> (Inl e, s0)
                 | Inr intersect_regions \<Rightarrow>
                     (case random_sample [0..<length intersect_regions] num_drop s0 of
                        (Inl e, s1) \<Rightarrow> (Inl e, s1)
                      | (Inr rows2drop, s1) \<Rightarrow>
                          (case df_drop (bed s1) (map (\<lambda>i. fst (intersect_regions ! i)) rows2drop) of
                             Inl e \<Rightarrow> (Inl e, s1)
                           | Inr b \<Rightarrow> (Inr num_drop, s1\<lparr>bed := b\<rparr>))))))"

text \<open>
  \<^verbatim>\<open>Bedshift.all_perturbations\<close> without a YAML configuration (the YAML handler is
  not part of this file). A file argument counts when it is a non-empty string.
\<close>

definition given :: "string option \<Rightarrow> bool" where
  "given f = (case f of None \<Rightarrow> False | Some p \<Rightarrow> p \<noteq> [])"

definition all_perturbations ::
  "real \<Rightarrow> real \<Rightarrow> real \<Rightarrow> string option \<Rightarrow> real \<Rightarrow> real \<Rightarrow> real \<Rightarrow> string option \<Rightarrow>
   real \<Rightarrow> real \<Rightarrow> real \<Rightarrow> string option \<Rightarrow> state \<Rightarrow> (error + int) \<times> state" where
  "all_perturbations addrate addmean addstdev addfile shiftrate shiftmean shiftstdev shiftfile
     cutrate mergerate droprate dropfile s =
     (case (if given shiftfile then shift_from_file (the shiftfile) shiftrate shiftmean shiftstdev s
            else shift shiftrate shiftmean shiftstdev None s) of
        (Inl e, s1) \<Rightarrow> (Inl e, s1)
      | (Inr n1, s1) \<Rightarrow>
          (case (if given addfile then add_from_file (the addfile) addrate s1
                 else add addrate addmean addstdev s1) of
             (Inl e, s2) \<Rightarrow> (Inl e, s2)
           | (Inr n2, s2) \<Rightarrow>
               (case cut_op cutrate s2 of
                  (Inl e, s3) \<Rightarrow> (Inl e, s3)
                | (Inr n3, s3) \<Rightarrow>
                    (case merge mergerate s3 of
                       (Inl e, s4) \<Rightarrow> (Inl e, s4)
                     | (Inr n4, s4) \<Rightarrow>
                         (case (if given dropfile then drop_from_file (the dropfile) droprate s4
                                else drop_op droprate s4) of
                            (Inl e, s5) \<Rightarrow> (Inl e, s5)
                          | (Inr n5, s5) \<Rightarrow> (Inr (0 + n1 + n2 + n3 + n4 + n5), s5))))))"

section \<open>Predicates of the statements\<close>



section \<open>Example states\<close>

text \<open>
  The example of the specification: ten regions \<open>[0,100), [100,200), ..., [900,1000)\<close>
  on \<^verbatim>\<open>chr1\<close> of length 1000.
\<close>

definition tile :: "int \<Rightarrow> region" where
  "tile k = \<lparr>r_chrom = ''chr1'', r_start = 100 * k, r_end = 100 * k + 100, r_tag = ''-''\<rparr>"

definition decade :: state where
  "decade =
     \<lparr>chrom_lens = [(''chr1'', 1000)], chrom_weights = [1],
      original_bed = map tile [0, 1, 2, 3, 4, 5, 6, 7, 8, 9],
      bed = map tile [0, 1, 2, 3, 4, 5, 6, 7, 8, 9],
      files = [], py_random = [2, 2], np_random = [50, 950], warnings = []\<rparr>"

text \<open>A BED file that lists one region twice.\<close>

definition twins :: state where
  "twins =
     \<lparr>chrom_lens = [(''chr1'', 1000)], chrom_weights = [1],
      original_bed = [tile 0, tile 0], bed = [tile 0, tile 0],
      files = [], py_random = [0], np_random = [], warnings = []\<rparr>"

text \<open>Two neighbours on \<^verbatim>\<open>chr1\<close> and a region on \<^verbatim>\<open>chr2\<close>.\<close>

definition triple :: state where
  "triple =
     \<lparr>chrom_lens = [], chrom_weights = [],
      original_bed =
        [\<lparr>r_chrom = ''chr1'', r_start = 0, r_end = 10, r_tag = ''-''\<rparr>,
         \<lparr>r_chrom = ''chr1'', r_start = 10, r_end = 20, r_tag = ''-''\<rparr>,
         \<lparr>r_chrom = ''chr2'', r_start = 0, r_end = 10, r_tag = ''-''\<rparr>],
      bed =
        [\<lparr>r_chrom = ''chr1'', r_start = 0, r_end = 10, r_tag = ''-''\<rparr>,
         \<lparr>r_chrom = ''chr1'', r_start = 10, r_end = 20, r_tag = ''-''\<rparr>,
         \<lparr>r_chrom = ''chr2'', r_start = 0, r_end = 10, r_tag = ''-''\<rparr>],
      files = [], py_random = [0, 0], np_random = [], warnings = []\<rparr>"


text \<open>
  Two chromosomes with the weights \<^verbatim>\<open>_read_chromsizes\<close> computes for them, and four
  regions.
\<close>

definition genome :: state where
  "genome =
     \<lparr>chrom_lens = [(''chr1'', 1000), (''chr2'', 500)], chrom_weights = [2 / 3, 1 / 3],
      original_bed = map tile [0, 1, 2, 3], bed = map tile [0, 1, 2, 3],
      files = [], py_random = [0, 9007199254740991, 700, 1200], np_random = [320, 300],
      warnings = []\<rparr>"

text \<open>
  Two regions, \<open>chr1 [0,100)\<close> and \<open>chr1 [500,600)\<close>, and two external files: the
  region of \<^verbatim>\<open>other.bed\<close> overlaps the second region only, the region of
  \<^verbatim>\<open>far.bed\<close> overlaps none.
\<close>

definition overlap_demo :: state where
  "overlap_demo =
     \<lparr>chrom_lens = [(''chr1'', 1000)], chrom_weights = [1],
      original_bed = [tile 0, tile 5], bed = [tile 0, tile 5],
      files = [(''other.bed'', [\<lparr>r_chrom = ''chr1'', r_start = 550, r_end = 650, r_tag = ''-''\<rparr>]),
               (''far.bed'', [\<lparr>r_chrom = ''chr2'', r_start = 0, r_end = 10, r_tag = ''-''\<rparr>])],
      py_random = [0], np_random = [5], warnings = []\<rparr>"


section \<open>Facts about the library calls\<close>


lemma sample_loop_props:
  "k \<le> length pool \<Longrightarrow> distinct pool \<Longrightarrow> sample_loop pool k tape = (res, tape') \<Longrightarrow>
   length res = k \<and> distinct res \<and> set res \<subseteq> set pool"
proof (induction k arbitrary: pool tape res tape')
  case 0
  then show ?case by simp
next
  case (Suc k)
  obtain t tape1 where d: "draw tape = (t, tape1)" by (cases "draw tape")
  define j where "j = nat (t mod int (length pool))"
  define pool' where "pool' = take j pool @ drop (Suc j) pool"
  obtain r2 t2 where rec: "sample_loop pool' k tape1 = (r2, t2)"
    by (cases "sample_loop pool' k tape1")
  from Suc.prems(1) have pos: "0 < length pool" by auto
  then have jlt: "j < length pool"
    unfolding j_def by (simp add: nat_less_iff)
  have len': "length pool' = length pool - 1"
    unfolding pool'_def using jlt by simp
  have pool_eq: "pool = take j pool @ pool ! j # drop (Suc j) pool"
    using jlt by (simp add: id_take_nth_drop)
  have dist': "distinct pool'" and notin: "pool ! j \<notin> set pool'" and sub: "set pool' \<subseteq> set pool"
  proof -
    have "distinct (take j pool @ pool ! j # drop (Suc j) pool)"
      using Suc.prems(2) pool_eq by simp
    then show "distinct pool'" "pool ! j \<notin> set pool'"
      unfolding pool'_def by auto
    show "set pool' \<subseteq> set pool"
      unfolding pool'_def by (auto dest: in_set_takeD in_set_dropD)
  qed
  have res: "res = pool ! j # r2" and "tape' = t2"
    using Suc.prems(3) d rec unfolding j_def pool'_def by (simp_all add: Let_def)
  have "k \<le> length pool'" using Suc.prems(1) len' by simp
  from Suc.IH[OF this dist' rec]
  have ih: "length r2 = k" "distinct r2" "set r2 \<subseteq> set pool'" by simp_all
  show ?case
    using ih notin sub jlt res by auto
qed


lemma enumerate_filter_nths:
  "map snd (filter (\<lambda>(i, r). i \<in> A) (enumerate n xs)) = nths xs {j. j + n \<in> A}"
proof (induction xs arbitrary: n)
  case Nil
  then show ?case by simp
next
  case (Cons x xs)
  have "{j. Suc j + n \<in> A} = {j. j + Suc n \<in> A}" by simp
  then show ?case
    using Cons.IH[of "Suc n"] by (simp add: nths_Cons)
qed

lemma df_drop_nths:
  "list_all (\<lambda>l. l < length df) labels \<Longrightarrow> df_drop df labels = Inr (nths df (- set labels))"
proof -
  have "(\<lambda>(i, r). i \<notin> set labels) = (\<lambda>(i, r::region). i \<in> - set labels)" by auto
  then have "map snd (filter (\<lambda>(i, r). i \<notin> set labels) (enumerate 0 df)) = nths df {j. j + 0 \<in> - set labels}"
    using enumerate_filter_nths[of "- set labels" 0 df] by simp
  moreover assume "list_all (\<lambda>l. l < length df) labels"
  moreover have "{j. j \<notin> set labels} = - set labels" by auto
  ultimately show ?thesis by (simp add: df_drop_def)
qed

lemma df_drop_KeyError:
  "\<not> list_all (\<lambda>l. l < length df) labels \<Longrightarrow> df_drop df labels = Inl KeyError"
  by (simp add: df_drop_def)

lemma length_nths_compl:
  assumes "distinct rows" "set rows \<subseteq> {..<length xs}"
  shows "length (nths xs (- set rows)) = length xs - length rows"
proof -
  have "{i. i < length xs \<and> i \<in> - set rows} = {..<length xs} - set rows" by auto
  then have "length (nths xs (- set rows)) = card ({..<length xs} - set rows)"
    by (simp add: length_nths)
  also have "\<dots> = card {..<length xs} - card (set rows)"
    using assms(2) by (simp add: card_Diff_subset)
  also have "\<dots> = length xs - length rows"
    using assms(1) by (simp add: distinct_card)
  finally show ?thesis .
qed


lemma nths_compl_distinct_notin:
  assumes "distinct xs" "i \<in> A" "i < length xs"
  shows "xs ! i \<notin> set (nths xs (- A))"
proof
  assume "xs ! i \<in> set (nths xs (- A))"
  then obtain j where "j < length xs" "j \<notin> A" "xs ! j = xs ! i"
    by (auto simp: set_nths)
  with assms show False by (auto simp: nth_eq_iff_index_eq)
qed


lemma random_sample_ok:
  assumes "0 \<le> k" "k \<le> int (length pop)" "distinct pop"
  shows "\<exists>res tape. random_sample pop k s = (Inr res, s\<lparr>py_random := tape\<rparr>)
           \<and> length res = nat k \<and> distinct res \<and> set res \<subseteq> set pop"
proof -
  obtain res tape where sl: "sample_loop pop (nat k) (py_random s) = (res, tape)"
    by (cases "sample_loop pop (nat k) (py_random s)")
  have "nat k \<le> length pop" using assms by simp
  from sample_loop_props[OF this assms(3) sl]
  have "length res = nat k \<and> distinct res \<and> set res \<subseteq> set pop" .
  moreover have "random_sample pop k s = (Inr res, s\<lparr>py_random := tape\<rparr>)"
    using assms sl by (simp add: random_sample_def)
  ultimately show ?thesis by blast
qed


lemma random_sample_Inl:
  "random_sample pop k s = (Inl e, s1) \<Longrightarrow> s1 = s \<and> e = ValueError"
  by (auto simp: random_sample_def split: if_splits prod.splits)

lemma decade_bed_len: "length (bed decade) = 10"
  by (simp add: decade_def)

lemma normal_int_frame:
  "normal_int loc scale s = (res, s1) \<Longrightarrow> \<exists>tape. s1 = s\<lparr>np_random := tape\<rparr>"
  by (auto simp: normal_int_def split: if_splits prod.splits intro: exI[of _ "np_random s"])

section \<open>The frame on every path\<close>

text \<open>
  Whatever a library call or a loop returns, it leaves \<^verbatim>\<open>self.bed\<close> as it found it;
  an operator that fails has not assigned it.
\<close>

lemma random_sample_bed: "random_sample pop k s = (r, s1) \<Longrightarrow> bed s1 = bed s"
  by (auto simp: random_sample_def split: if_splits prod.splits)

lemma normal_int_bed: "normal_int loc scale s = (r, s1) \<Longrightarrow> bed s1 = bed s"
  by (auto simp: normal_int_def split: if_splits prod.splits)

lemma random_randint_bed: "random_randint a b s = (r, s1) \<Longrightarrow> bed s1 = bed s"
  by (auto simp: random_randint_def split: if_splits prod.splits)

lemma random_choices_bed: "random_choices pop w k s = (r, s1) \<Longrightarrow> bed s1 = bed s"
  by (auto simp: random_choices_def Let_def split: if_splits prod.splits)

lemma pick_random_chroms_bed: "pick_random_chroms n s = (r, s1) \<Longrightarrow> bed s1 = bed s"
  by (auto simp: pick_random_chroms_def split: prod.splits sum.splits dest: random_choices_bed)

lemma add_loop_bed: "add_loop rc m sd acc s = (r, s1) \<Longrightarrow> bed s1 = bed s"
proof (induction rc arbitrary: acc s)
  case Nil
  then show ?case by simp
next
  case (Cons p rest)
  obtain c l where p: "p = (c, l)" by (cases p)
  show ?case
  proof (cases "random_randint 1 l s")
    case (Pair r1 s1')
    note ri = this
    show ?thesis
    proof (cases r1)
      case (Inl e)
      with Cons.prems p ri show ?thesis by (auto dest: random_randint_bed)
    next
      case (Inr start)
      show ?thesis
      proof (cases "normal_int m sd s1'")
        case (Pair r2 s2')
        then show ?thesis
          using Cons.prems p ri Inr Cons.IH
          by (cases r2) (auto dest!: random_randint_bed normal_int_bed)
      qed
    qed
  qed
qed

lemma shift_row_bed: "shift_row row m sd s = (r, s1) \<Longrightarrow> bed s1 = bed s"
  by (auto simp: shift_row_def split: prod.splits sum.splits if_splits dest: normal_int_bed)

lemma shift_loop_bed: "shift_loop cands m sd acc s = (r, s1) \<Longrightarrow> bed s1 = bed s"
proof (induction cands arbitrary: acc s)
  case Nil
  then show ?case by simp
next
  case (Cons row rest)
  obtain a b c d where acc: "acc = (a, b, c, d)" by (cases acc)
  obtain r1 s1' where sr: "shift_row row m sd s = (r1, s1')" by (cases "shift_row row m sd s")
  from shift_row_bed[OF sr] have b1: "bed s1' = bed s" .
  show ?case
  proof (cases r1)
    case (Inl e)
    with Cons.prems acc sr b1 show ?thesis by auto
  next
    case (Inr v)
    then show ?thesis
      using Cons.prems acc sr b1 Cons.IH by (cases v) (auto split: prod.splits)
  qed
qed

lemma shift_Inl: "shift rate m sd rows s = (Inl e, s') \<Longrightarrow> bed s' = bed s"
  by (auto simp: shift_def Let_def split: sum.splits prod.splits option.splits if_splits
      dest!: random_sample_bed shift_loop_bed)

lemma add_Inl: "add rate m sd s = (Inl e, s') \<Longrightarrow> bed s' = bed s"
  by (auto simp: add_def Let_def split: sum.splits prod.splits
      dest!: pick_random_chroms_bed add_loop_bed)

lemma add_from_file_Inl: "add_from_file fp rate s = (Inl e, s') \<Longrightarrow> bed s' = bed s"
  by (auto simp: add_from_file_def Let_def split: sum.splits prod.splits if_splits
      dest!: random_sample_bed)

lemma shift_from_file_Inl:
  "shift_from_file fp rate m sd s = (Inl e, s') \<Longrightarrow> bed s' = bed s"
  by (auto simp: shift_from_file_def Let_def split: sum.splits prod.splits if_splits
      dest!: random_sample_bed shift_Inl)

lemma cut_op_Inl: "cut_op rate s = (Inl e, s') \<Longrightarrow> bed s' = bed s"
  by (auto simp: cut_op_def Let_def split: sum.splits prod.splits
      dest!: random_sample_bed)

lemma merge_Inl: "merge rate s = (Inl e, s') \<Longrightarrow> bed s' = bed s"
  by (auto simp: merge_def Let_def split: sum.splits prod.splits
      dest!: random_sample_bed)

lemma drop_op_Inl: "drop_op rate s = (Inl e, s') \<Longrightarrow> bed s' = bed s"
  by (auto simp: drop_op_def Let_def split: sum.splits prod.splits
      dest!: random_sample_bed)

lemma drop_from_file_Inl: "drop_from_file fp rate s = (Inl e, s') \<Longrightarrow> bed s' = bed s"
  by (auto simp: drop_from_file_def Let_def split: sum.splits prod.splits if_splits
      dest!: random_sample_bed)

section \<open>Calls that return\<close>

lemma normal_int_ok:
  "0 \<le> scale \<Longrightarrow> \<exists>t s1. normal_int loc scale s = (Inr t, s1)"
  by (cases "draw (np_random s)") (simp add: normal_int_def)

lemma dict_get_ok: "k \<in> fst ` set d \<Longrightarrow> \<exists>v. dict_get d k = Inr v \<and> (k, v) \<in> set d"
proof -
  assume "k \<in> fst ` set d"
  then obtain v where "map_of d k = Some v"
    by (cases "map_of d k") (auto simp: map_of_eq_None_iff)
  then show ?thesis
    by (auto simp: dict_get_def dest: map_of_SomeD)
qed


section \<open>Double arithmetic\<close>

lemma bit_length_0: "bit_length 0 = 0"
  by (simp add: bit_length.simps)

lemma bit_length_1: "bit_length (Suc 0) = Suc 0"
  by (simp add: bit_length.simps[of "Suc 0"] bit_length_0)

lemma bit_length_numeral: "bit_length (numeral k) = Suc (bit_length (numeral k div 2))"
  by (simp add: bit_length.simps[of "numeral k"])

lemmas double_eval = double_round_def ulp_exponent_def pow2_def round_half_even_def Let_def
  int_times_float_def rate_count_def py_int_def bit_length_0 bit_length_1 bit_length_numeral

lemma bit_length_bounds: "0 < n \<Longrightarrow> 2 ^ (bit_length n - 1) \<le> n \<and> n < 2 ^ bit_length n"
proof (induction n rule: bit_length.induct)
  case (1 n)
  show ?case
  proof (cases "n div 2 = 0")
    case True
    with "1.prems" have "n = 1" by (cases n) auto
    then show ?thesis by (simp add: bit_length_1)
  next
    case False
    then have pos: "0 < n div 2" by simp
    from "1.prems" have n0: "n \<noteq> 0" by simp
    from "1.IH"[OF n0 pos] have
      ih: "2 ^ (bit_length (n div 2) - 1) \<le> n div 2" "n div 2 < 2 ^ bit_length (n div 2)"
      by simp_all
    have bl: "bit_length n = Suc (bit_length (n div 2))"
      using n0 by (subst bit_length.simps) simp
    have bpos: "0 < bit_length (n div 2)"
      using pos by (subst bit_length.simps) simp
    have "(2::nat) ^ bit_length (n div 2) = 2 * 2 ^ (bit_length (n div 2) - 1)"
      using bpos by (cases "bit_length (n div 2)") simp_all
    moreover have split: "n = 2 * (n div 2) + n mod 2" "n mod 2 < 2" by simp_all
    ultimately have lo: "2 ^ bit_length (n div 2) \<le> n" using ih(1) by linarith
    from ih(2) split have hi: "n < 2 * 2 ^ bit_length (n div 2)" by linarith
    from lo hi bl show ?thesis by simp
  qed
qed

lemma round_half_even_cases: "round_half_even x = \<lfloor>x\<rfloor> \<or> round_half_even x = \<lfloor>x\<rfloor> + 1"
  by (simp add: round_half_even_def Let_def)

lemma round_half_even_int: "round_half_even (of_int K) = K"
  by (simp add: round_half_even_def Let_def)

lemma round_half_even_ge: "of_int K \<le> x \<Longrightarrow> K \<le> round_half_even x"
proof -
  assume "of_int K \<le> x"
  then have "K \<le> \<lfloor>x\<rfloor>" by (simp add: le_floor_iff)
  with round_half_even_cases[of x] show ?thesis by auto
qed

lemma round_half_even_le: "x \<le> of_int K \<Longrightarrow> round_half_even x \<le> K"
proof (cases "x = of_int K")
  case True
  then show ?thesis by (simp add: round_half_even_int)
next
  case False
  assume "x \<le> of_int K"
  with False have "x < of_int K" by simp
  then have "\<lfloor>x\<rfloor> < K" by (simp add: floor_less_iff)
  with round_half_even_cases[of x] show ?thesis by auto
qed

lemma pow2_pos: "0 < pow2 u"
  by (simp add: pow2_def)

lemma ulp_exponent_small:
  assumes "0 < x" "x \<le> 2 ^ 53"
  shows "ulp_exponent x \<le> 0 \<or> x = 2 ^ 53"
proof (cases "1 \<le> x")
  case False
  then show ?thesis by (simp add: ulp_exponent_def)
next
  case True
  let ?n = "nat \<lfloor>x\<rfloor>"
  have npos: "0 < ?n" using True by simp
  show ?thesis
  proof (cases "x = 2 ^ 53")
    case True
    then show ?thesis by simp
  next
    case False
    define e :: nat where "e = 53"
    from False assms(2) have "x < 2 ^ e" by (simp add: e_def)
    then have "\<lfloor>x\<rfloor> < 2 ^ e" by (simp add: floor_less_iff)
    then have lt: "?n < 2 ^ e" using npos by (simp add: nat_less_iff)
    from bit_length_bounds[OF npos] have "2 ^ (bit_length ?n - 1) \<le> ?n" by simp
    from this lt have "(2::nat) ^ (bit_length ?n - 1) < 2 ^ e" by (rule le_less_trans)
    then have "bit_length ?n - 1 < e" by simp
    then have "int (bit_length ?n) - 53 \<le> 0" by (simp add: e_def)
    with True show ?thesis by (simp add: ulp_exponent_def)
  qed
qed

lemma double_round_two_53: "double_round (2 ^ 53) = Some (2 ^ 53)"
  by (simp add: double_eval)

lemma double_round_between:
  assumes "0 < x" "x \<le> 2 ^ 53"
  shows "\<exists>p. double_round x = Some p
           \<and> (\<forall>K. K \<le> 2 ^ 53 \<longrightarrow> (of_int K \<le> x \<longrightarrow> of_int K \<le> p) \<and> (x \<le> of_int K \<longrightarrow> p \<le> of_int K))"
proof (cases "x = 2 ^ 53")
  case True
  then show ?thesis using double_round_two_53 by auto
next
  case False
  with ulp_exponent_small[OF assms] have u: "ulp_exponent x \<le> 0" by simp
  define j where "j = nat (- ulp_exponent x)"
  have p2: "pow2 (ulp_exponent x) = 1 / 2 ^ j"
    using u by (cases "ulp_exponent x = 0") (simp_all add: pow2_def j_def)
  define m where "m = round_half_even (x * 2 ^ j)"
  define p where "p = real_of_int m / 2 ^ j"
  have bounds: "(of_int K \<le> x \<longrightarrow> of_int K \<le> p) \<and> (x \<le> of_int K \<longrightarrow> p \<le> of_int K)" for K
  proof (intro conjI impI)
    assume "of_int K \<le> x"
    then have "of_int (K * 2 ^ j) \<le> x * 2 ^ j" by simp
    from round_half_even_ge[OF this] have "K * 2 ^ j \<le> m" by (simp add: m_def)
    then have "of_int (K * 2 ^ j) \<le> real_of_int m" by linarith
    then show "of_int K \<le> p" by (simp add: p_def pos_le_divide_eq)
  next
    assume "x \<le> of_int K"
    then have "x * 2 ^ j \<le> of_int (K * 2 ^ j)" by simp
    from round_half_even_le[OF this] have "m \<le> K * 2 ^ j" by (simp add: m_def)
    then have "real_of_int m \<le> of_int (K * 2 ^ j)" by linarith
    then show "p \<le> of_int K" by (simp add: p_def pos_divide_le_eq)
  qed
  from bounds[of "2 ^ 53"] assms(2) have "p \<le> 2 ^ 53" by simp
  also have "(2::real) ^ 53 < 2 ^ 1024" by simp
  finally have nov: "\<not> 2 ^ 1024 \<le> p" by simp
  have "double_round x = Some p"
    using assms(1) nov p2 by (simp add: double_round_def Let_def p_def m_def)
  with bounds show ?thesis by blast
qed

lemma double_round_nonneg:
  assumes "0 \<le> x" "double_round x = Some p"
  shows "0 \<le> p"
proof (cases "x = 0")
  case True
  with assms(2) show ?thesis by (simp add: double_round_def)
next
  case False
  with assms(1) have pos: "0 < x" by simp
  let ?u = "ulp_exponent \<bar>x\<bar>"
  have "of_int 0 \<le> \<bar>x\<bar> / pow2 ?u" using pow2_pos[of ?u] by simp
  from round_half_even_ge[OF this] have "0 \<le> round_half_even (\<bar>x\<bar> / pow2 ?u)" .
  then have "0 \<le> real_of_int (round_half_even (\<bar>x\<bar> / pow2 ?u)) * pow2 ?u"
    using pow2_pos[of ?u] by simp
  with assms(2) pos show ?thesis
    by (auto simp: double_round_def Let_def split: if_splits)
qed

lemma double_round_nat:
  assumes "n \<le> 2 ^ 53"
  shows "double_round (real n) = Some (real n)"
proof (cases "n = 0")
  case True
  then show ?thesis by (simp add: double_round_def)
next
  case False
  then have pos: "0 < real n" by simp
  have le: "real n \<le> 2 ^ 53" using assms by (metis of_nat_le_iff of_nat_numeral of_nat_power)
  from double_round_between[OF pos le] obtain p where
    p: "double_round (real n) = Some p"
    and b: "\<And>K. K \<le> 2 ^ 53 \<Longrightarrow> (of_int K \<le> real n \<longrightarrow> of_int K \<le> p) \<and> (real n \<le> of_int K \<longrightarrow> p \<le> of_int K)"
    by blast
  have "int n \<le> 2 ^ 53" using assms by (metis of_nat_le_iff of_nat_numeral of_nat_power)
  from b[OF this] have "p = real n" by simp
  with p show ?thesis by simp
qed

text \<open>
  Rounding leaves a double as it is: the result of \<open>double_round\<close> lies on the grid of
  its own exponent. A rate that is a double is therefore the rate the product is taken
  with.
\<close>

lemma pow2_powi: "pow2 e = 2 powi e"
  by (simp add: pow2_def power_int_def inverse_eq_divide power_one_over)

lemma pow2_nat: "pow2 (int k) = 2 ^ k"
  by (simp add: pow2_def)

lemma pow2_add: "pow2 (a + b) = pow2 a * pow2 b"
  by (simp add: pow2_powi power_int_add)

lemma pow2_strict_mono: "a < b \<Longrightarrow> pow2 a < pow2 b"
  by (simp add: pow2_powi power_int_strict_increasing)

lemma pow2_less_iff: "pow2 a < pow2 b \<longleftrightarrow> a < b"
proof
  assume lt: "pow2 a < pow2 b"
  show "a < b"
  proof (rule ccontr)
    assume "\<not> a < b"
    then have "b = a \<or> b < a" by auto
    with pow2_strict_mono[of b a] lt show False by auto
  qed
qed (rule pow2_strict_mono)

lemma pow2_le_iff: "pow2 a \<le> pow2 b \<longleftrightarrow> a \<le> b"
  using pow2_less_iff[of b a] by auto

lemma bit_length_pos: "0 < n \<Longrightarrow> 0 < bit_length n"
  by (subst bit_length.simps) simp

lemma ulp_exponent_lower:
  assumes "0 < z"
  shows "- 1074 \<le> ulp_exponent z"
    and "pow2 (ulp_exponent z + 52) \<le> z \<or> ulp_exponent z = - 1074"
proof -
  show "- 1074 \<le> ulp_exponent z" by (simp add: ulp_exponent_def)
  show "pow2 (ulp_exponent z + 52) \<le> z \<or> ulp_exponent z = - 1074"
  proof (cases "1 \<le> z")
    case True
    let ?n = "nat \<lfloor>z\<rfloor>"
    have npos: "0 < ?n" using True by simp
    from bit_length_pos[OF npos] obtain k where k: "bit_length ?n = Suc k"
      by (cases "bit_length ?n") simp_all
    from bit_length_bounds[OF npos] k have "2 ^ k \<le> ?n" by simp
    then have "real (2 ^ k) \<le> real ?n" by (rule iffD2[OF of_nat_le_iff])
    also have "real ?n \<le> z" using True by (simp add: of_nat_nat)
    finally have "2 ^ k \<le> z" by simp
    moreover have "ulp_exponent z + 52 = int k" using True k by (simp add: ulp_exponent_def)
    ultimately show ?thesis by (simp add: pow2_nat)
  next
    case False
    with assms have inv: "1 < 1 / z" by simp
    let ?n = "nat \<lfloor>1 / z\<rfloor>"
    have npos: "0 < ?n" using inv by simp
    let ?b = "bit_length ?n"
    show ?thesis
    proof (cases "ulp_exponent z = - 1074")
      case True
      then show ?thesis by simp
    next
      case F2: False
      with False have u: "ulp_exponent z = - 52 - int ?b"
        by (simp add: ulp_exponent_def max_def split: if_splits)
      from bit_length_bounds[OF npos] have "?n < 2 ^ ?b" by simp
      then have "Suc ?n \<le> 2 ^ ?b" by (rule Suc_leI)
      then have "real (Suc ?n) \<le> real (2 ^ ?b)" by (rule iffD2[OF of_nat_le_iff])
      then have nb: "real ?n + 1 \<le> 2 ^ ?b" by simp
      have "1 / z < of_int \<lfloor>1 / z\<rfloor> + 1" by linarith
      also have "of_int \<lfloor>1 / z\<rfloor> = real ?n" using assms by (simp add: of_nat_nat)
      finally have "1 / z < 2 ^ ?b" using nb by linarith
      then have "1 < 2 ^ ?b * z" using assms by (simp add: field_simps)
      then have "1 / 2 ^ ?b \<le> z" by (simp add: field_simps)
      moreover have "pow2 (ulp_exponent z + 52) = 1 / 2 ^ ?b"
        unfolding u by (simp add: pow2_def)
      ultimately show ?thesis by simp
    qed
  qed
qed

lemma ulp_exponent_upper:
  assumes "0 < z"
  shows "z \<le> pow2 (ulp_exponent z + 53)"
proof (cases "1 \<le> z")
  case True
  let ?n = "nat \<lfloor>z\<rfloor>"
  have npos: "0 < ?n" using True by simp
  from bit_length_bounds[OF npos] have "?n < 2 ^ bit_length ?n" by simp
  then have "Suc ?n \<le> 2 ^ bit_length ?n" by (rule Suc_leI)
  then have "real (Suc ?n) \<le> real (2 ^ bit_length ?n)" by (rule iffD2[OF of_nat_le_iff])
  then have nb: "real ?n + 1 \<le> 2 ^ bit_length ?n" by simp
  have "z < of_int \<lfloor>z\<rfloor> + 1" by linarith
  also have "of_int \<lfloor>z\<rfloor> = real ?n" using True by (simp add: of_nat_nat)
  finally have "z \<le> 2 ^ bit_length ?n" using nb by linarith
  moreover have "ulp_exponent z + 53 = int (bit_length ?n)" using True by (simp add: ulp_exponent_def)
  ultimately show ?thesis by (simp add: pow2_nat)
next
  case False
  with assms have inv: "1 < 1 / z" by simp
  let ?n = "nat \<lfloor>1 / z\<rfloor>"
  have npos: "0 < ?n" using inv by simp
  from bit_length_pos[OF npos] obtain k where k: "bit_length ?n = Suc k"
    by (cases "bit_length ?n") simp_all
  from bit_length_bounds[OF npos] k have "2 ^ k \<le> ?n" by simp
  then have "real (2 ^ k) \<le> real ?n" by (rule iffD2[OF of_nat_le_iff])
  also have "real ?n \<le> 1 / z" using assms by (simp add: of_nat_nat)
  finally have "2 ^ k \<le> 1 / z" by simp
  then have "2 ^ k * z \<le> 1" using assms by (simp add: field_simps)
  then have zk: "z \<le> 1 / 2 ^ k" by (simp add: field_simps)
  have "- int k \<le> ulp_exponent z + 53" using False k by (simp add: ulp_exponent_def)
  then have "pow2 (- int k) \<le> pow2 (ulp_exponent z + 53)" by (simp add: pow2_le_iff)
  moreover have "pow2 (- int k) = 1 / 2 ^ k" by (simp add: pow2_def)
  ultimately show ?thesis using zk by linarith
qed

lemma ulp_exponent_le:
  assumes "0 < z" "z < pow2 (a + 53)" "- 1074 \<le> a"
  shows "ulp_exponent z \<le> a"
proof (cases "ulp_exponent z = - 1074")
  case True
  with assms(3) show ?thesis by simp
next
  case False
  with ulp_exponent_lower(2)[OF assms(1)] have "pow2 (ulp_exponent z + 52) \<le> z" by simp
  with assms(2) have "pow2 (ulp_exponent z + 52) < pow2 (a + 53)" by linarith
  then show ?thesis by (simp add: pow2_less_iff)
qed


lemma pow2_plus_53: "pow2 (u + 53) = 2 ^ 53 * pow2 u"
proof -
  have "pow2 53 = 2 ^ 53" by (simp add: pow2_def)
  then show ?thesis by (simp add: pow2_add)
qed

lemma pow2_split: "v \<le> u \<Longrightarrow> \<exists>k. pow2 u = pow2 v * 2 ^ k"
proof -
  assume "v \<le> u"
  then obtain k where k: "u = v + int k" by (metis zle_iff_zadd)
  have "pow2 u = pow2 v * 2 ^ k" by (subst k) (simp add: pow2_add pow2_nat)
  then show ?thesis by blast
qed

lemma pow2_grid:
  assumes "0 < m" "m \<le> 2 ^ 53" "- 1074 \<le> u"
  shows "\<exists>K. real_of_int m * pow2 u / pow2 (ulp_exponent (real_of_int m * pow2 u)) = of_int K"
proof -
  define y where "y = real_of_int m * pow2 u"
  define v where "v = ulp_exponent y"
  have ypos: "0 < y" using assms(1) pow2_pos[of u] by (simp add: y_def)
  have vpos: "pow2 v \<noteq> 0" using pow2_pos[of v] by simp
  have "\<exists>K. y / pow2 v = of_int K"
  proof (cases "m = 2 ^ 53")
    case False
    with assms(2) have "m < 2 ^ 53" by simp
    then have "real_of_int m < real_of_int (2 ^ 53)" by (rule iffD2[OF of_int_less_iff])
    then have "real_of_int m < 2 ^ 53" by simp
    then have "y < 2 ^ 53 * pow2 u" using pow2_pos[of u] by (simp add: y_def)
    also have "2 ^ 53 * pow2 u = pow2 (u + 53)" by (simp only: pow2_plus_53)
    finally have "v \<le> u" unfolding v_def using ulp_exponent_le[OF ypos _ assms(3)] by simp
    from pow2_split[OF this] obtain k where k: "pow2 u = pow2 v * 2 ^ k" by blast
    have "y / pow2 v = real_of_int m * (pow2 v * 2 ^ k) / pow2 v" by (simp only: y_def k)
    also have "\<dots> = real_of_int m * 2 ^ k" using vpos by simp
    also have "\<dots> = of_int (m * 2 ^ k)" by simp
    finally show ?thesis by blast
  next
    case True
    have y: "y = pow2 (u + 53)" unfolding y_def True by (simp add: pow2_plus_53)
    have "pow2 (u + 53) < pow2 (u + 1 + 53)" by (simp add: pow2_less_iff)
    with y have "y < pow2 (u + 1 + 53)" by simp
    from ulp_exponent_le[OF ypos this] assms(3) have "v \<le> u + 53" by (simp add: v_def)
    from pow2_split[OF this] obtain k where k: "pow2 (u + 53) = pow2 v * 2 ^ k" by blast
    have "y / pow2 v = pow2 v * 2 ^ k / pow2 v" by (simp only: y k)
    also have "\<dots> = 2 ^ k" using vpos by simp
    also have "\<dots> = of_int (2 ^ k)" by simp
    finally show ?thesis by blast
  qed
  then show ?thesis by (simp add: v_def y_def)
qed

lemma double_round_idem:
  assumes "double_round x = Some y"
  shows "double_round y = Some y"
proof (cases "x = 0")
  case True
  with assms show ?thesis by (simp add: double_round_def)
next
  case False
  then have apos: "0 < \<bar>x\<bar>" by simp
  define u where "u = ulp_exponent \<bar>x\<bar>"
  define m where "m = round_half_even (\<bar>x\<bar> / pow2 u)"
  define w where "w = real_of_int m * pow2 u"
  from assms False have fin: "\<not> 2 ^ 1024 \<le> w" and y: "y = sgn x * w"
    by (auto simp: double_round_def Let_def u_def m_def w_def split: if_splits)
  have "of_int 0 \<le> \<bar>x\<bar> / pow2 u" using pow2_pos[of u] by simp
  from round_half_even_ge[OF this] have m0: "0 \<le> m" by (simp add: m_def)
  have "\<bar>x\<bar> \<le> pow2 (u + 53)" unfolding u_def by (rule ulp_exponent_upper[OF apos])
  also have "pow2 (u + 53) = 2 ^ 53 * pow2 u" by (rule pow2_plus_53)
  finally have "\<bar>x\<bar> / pow2 u \<le> of_int (2 ^ 53)" using pow2_pos[of u] by (simp add: field_simps)
  from round_half_even_le[OF this] have m53: "m \<le> 2 ^ 53" by (simp add: m_def)
  have ulow: "- 1074 \<le> u" unfolding u_def by (rule ulp_exponent_lower(1)[OF apos])
  show ?thesis
  proof (cases "m = 0")
    case True
    with y show ?thesis by (simp add: w_def double_round_def)
  next
    case F: False
    with m0 have mpos: "0 < m" by simp
    then have wpos: "0 < w" using pow2_pos[of u] by (simp add: w_def)
    from pow2_grid[OF mpos m53 ulow] obtain K where
      K: "w / pow2 (ulp_exponent w) = of_int K" by (auto simp: w_def)
    have abs: "\<bar>y\<bar> = w" using wpos False y by (simp add: abs_mult)
    have sg: "sgn y = sgn x" using wpos False y by (simp add: sgn_mult)
    have y0: "y \<noteq> 0" using abs wpos by auto
    have bk: "real_of_int K * pow2 (ulp_exponent w) = w"
      using K pow2_pos[of "ulp_exponent w"] by (simp add: field_simps)
    have rnd: "real_of_int (round_half_even (w / pow2 (ulp_exponent w))) * pow2 (ulp_exponent w) = w"
      by (simp only: K round_half_even_int bk)
    have sy: "sgn y * w = y" unfolding abs[symmetric] by (rule sgn_mult_abs)
    have "double_round y =
            (if 2 ^ 1024 \<le> real_of_int (round_half_even (\<bar>y\<bar> / pow2 (ulp_exponent \<bar>y\<bar>)))
                              * pow2 (ulp_exponent \<bar>y\<bar>)
             then None
             else Some (sgn y * (real_of_int (round_half_even (\<bar>y\<bar> / pow2 (ulp_exponent \<bar>y\<bar>)))
                                 * pow2 (ulp_exponent \<bar>y\<bar>))))"
      using y0 by (simp only: double_round_def Let_def if_False)
    also have "\<dots> = Some y" unfolding abs rnd sy using fin by simp
    finally show ?thesis .
  qed
qed

lemma int_times_float_double:
  assumes "double_round rate = Some rate" "n \<le> 2 ^ 53"
  shows "int_times_float n rate = double_round (real n * rate)"
  using assms double_round_nat[OF assms(2)] by (simp add: int_times_float_def)

lemma double_round_le_nat:
  assumes "0 \<le> x" "x \<le> real m" "m \<le> 2 ^ 53"
  shows "\<exists>q. double_round x = Some q \<and> 0 \<le> q \<and> q \<le> real m"
proof (cases "x = 0")
  case True
  then show ?thesis by (simp add: double_round_def)
next
  case False
  with assms(1) have pos: "0 < x" by simp
  have m53: "real m \<le> 2 ^ 53"
    using assms(3) by (metis of_nat_le_iff of_nat_numeral of_nat_power)
  with assms(2) have le: "x \<le> 2 ^ 53" by simp
  from double_round_between[OF pos le] obtain q where
    q: "double_round x = Some q"
    and b: "\<And>K. K \<le> 2 ^ 53 \<Longrightarrow> (of_int K \<le> x \<longrightarrow> of_int K \<le> q) \<and> (x \<le> of_int K \<longrightarrow> q \<le> of_int K)"
    by blast
  have i53: "int m \<le> 2 ^ 53"
    using assms(3) by (metis of_nat_le_iff of_nat_numeral of_nat_power)
  from b[OF i53] assms(2) have "q \<le> real m" by simp
  with q double_round_nonneg[OF assms(1) q] show ?thesis by blast
qed

lemma float_product:
  assumes "0 \<le> q" "real n * q \<le> 2 ^ 53"
  shows "\<exists>p. double_round (real n * q) = Some p \<and> 0 \<le> p
           \<and> of_int \<lfloor>real n * q\<rfloor> \<le> p \<and> p \<le> of_int \<lceil>real n * q\<rceil>"
proof -
  let ?x = "real n * q"
  have x0: "0 \<le> ?x" using assms(1) by simp
  have le: "?x \<le> 2 ^ 53" by (rule assms(2))
  show ?thesis
  proof (cases "?x = 0")
    case True
    show ?thesis unfolding True by (simp add: double_round_def)
  next
    case False
    with x0 have pos: "0 < ?x" by linarith
    from double_round_between[OF pos le] obtain p where
      p: "double_round ?x = Some p"
      and b: "\<And>K. K \<le> 2 ^ 53 \<Longrightarrow> (of_int K \<le> ?x \<longrightarrow> of_int K \<le> p) \<and> (?x \<le> of_int K \<longrightarrow> p \<le> of_int K)"
      by blast
    have "\<lfloor>?x\<rfloor> \<le> 2 ^ 53" using le by (simp add: floor_le_iff)
    from b[OF this] have lo: "of_int \<lfloor>?x\<rfloor> \<le> p" by simp
    have "\<lceil>?x\<rceil> \<le> 2 ^ 53" using le by (simp add: ceiling_le_iff)
    from b[OF this] have hi: "p \<le> of_int \<lceil>?x\<rceil>" by simp
    from double_round_nonneg[OF x0 p] p lo hi show ?thesis by simp
  qed
qed

lemma rate_count_near:
  assumes "0 \<le> rate" "rate \<le> real m" "n \<le> 2 ^ 53" "n * m \<le> 2 ^ 53" "m \<le> 2 ^ 53"
  shows "\<exists>q p. double_round rate = Some q \<and> 0 \<le> q \<and> q \<le> real m
           \<and> int_times_float n rate = Some p \<and> rate_count n rate = Inr \<lfloor>p\<rfloor>
           \<and> 0 \<le> \<lfloor>p\<rfloor> \<and> \<lfloor>p\<rfloor> \<le> int (n * m)
           \<and> \<lfloor>real n * q\<rfloor> \<le> \<lfloor>p\<rfloor> \<and> \<lfloor>p\<rfloor> \<le> \<lceil>real n * q\<rceil>"
proof -
  have r: "double_round (real n) = Some (real n)" by (rule double_round_nat[OF assms(3)])
  from double_round_le_nat[OF assms(1,2,5)] obtain q where
    q: "double_round rate = Some q" "0 \<le> q" "q \<le> real m" by blast
  let ?x = "real n * q"
  have xm: "?x \<le> real (n * m)" using q(3) by (simp add: mult_left_mono)
  have nm53: "real (n * m) \<le> 2 ^ 53"
    using assms(4) by (metis of_nat_le_iff of_nat_numeral of_nat_power)
  from xm nm53 have le: "?x \<le> 2 ^ 53" by linarith
  from float_product[OF q(2) le] obtain p where
    p: "double_round ?x = Some p" "0 \<le> p" "of_int \<lfloor>?x\<rfloor> \<le> p" "p \<le> of_int \<lceil>?x\<rceil>"
    by blast
  have itf: "int_times_float n rate = Some p"
    using r q(1) p(1) by (simp add: int_times_float_def)
  have rc: "rate_count n rate = Inr \<lfloor>p\<rfloor>" using itf p(2) by (simp add: rate_count_def py_int_def)
  have f0: "0 \<le> \<lfloor>p\<rfloor>" using p(2) by simp
  have lo: "\<lfloor>?x\<rfloor> \<le> \<lfloor>p\<rfloor>" using p(3) by (simp add: le_floor_iff)
  have hi: "\<lfloor>p\<rfloor> \<le> \<lceil>?x\<rceil>" using p(4) by (simp add: floor_le_iff)
  have "\<lceil>?x\<rceil> \<le> int (n * m)" using xm by (simp add: ceiling_le_iff)
  with hi have up: "\<lfloor>p\<rfloor> \<le> int (n * m)" by linarith
  from q itf rc f0 up lo hi show ?thesis by blast
qed

lemma rate_count_unit:
  assumes "0 \<le> rate" "rate \<le> 1" "n \<le> 2 ^ 53"
  shows "\<exists>q p. double_round rate = Some q \<and> 0 \<le> q \<and> q \<le> 1
           \<and> int_times_float n rate = Some p \<and> rate_count n rate = Inr \<lfloor>p\<rfloor>
           \<and> 0 \<le> \<lfloor>p\<rfloor> \<and> \<lfloor>p\<rfloor> \<le> int n
           \<and> \<lfloor>real n * q\<rfloor> \<le> \<lfloor>p\<rfloor> \<and> \<lfloor>p\<rfloor> \<le> \<lceil>real n * q\<rceil>"
  using rate_count_near[of rate 1 n] assms by simp

lemma rate_count_Inr:
  assumes "0 \<le> rate" "rate_count n rate = Inr k"
  shows "\<exists>p. int_times_float n rate = Some p \<and> k = \<lfloor>p\<rfloor> \<and> 0 \<le> k"
proof -
  from assms(2) obtain p where itf: "int_times_float n rate = Some p" and k: "k = py_int p"
    by (auto simp: rate_count_def split: option.splits)
  from itf obtain r q where r: "double_round (real n) = Some r"
    and q: "double_round rate = Some q"
    and p: "double_round (r * q) = Some p"
    by (auto simp: int_times_float_def split: option.splits)
  have "0 \<le> r" using double_round_nonneg[OF _ r] by simp
  moreover have "0 \<le> q" using double_round_nonneg[OF assms(1) q] .
  ultimately have "0 \<le> r * q" by simp
  from double_round_nonneg[OF this p] have "0 \<le> p" .
  with k have "k = \<lfloor>p\<rfloor>" "0 \<le> k" by (simp_all add: py_int_def)
  with itf show ?thesis by blast
qed

lemma rate_count_small:
  "rate_count (Suc (Suc 0)) (1 / 2) = Inr 1"
  "rate_count (Suc (Suc (Suc 0))) (1 / 3) = Inr 1"
  "rate_count (Suc (Suc (Suc (Suc 0)))) (1 / 2) = Inr 2"
proof -
  have "rate_count 2 (1 / 2) = Inr 1" "rate_count 3 (1 / 3) = Inr 1"
    "rate_count 4 (1 / 2) = Inr 2"
    by (simp_all add: double_eval)
  then show "rate_count (Suc (Suc 0)) (1 / 2) = Inr 1"
    "rate_count (Suc (Suc (Suc 0))) (1 / 3) = Inr 1"
    "rate_count (Suc (Suc (Suc (Suc 0)))) (1 / 2) = Inr 2"
    by (simp_all add: eval_nat_numeral)
qed

text \<open>
  The count is not the floor of the exact product: 50 rows at the rate \<^verbatim>\<open>0.58\<close>, the
  double \<open>5224175567749775 / 2\<^sup>5\<^sup>3\<close>, give 28 (the floating-point product is the double
  below 29), and 10 rows at the rate \<^verbatim>\<open>0.7\<close> give 7 (the exact product of 10 and the
  double is below 7, the floating-point product is 7). Rounding leaves these doubles
  as they are.
\<close>

lemma rate_count_examples:
  "double_round (29 / 50) = Some (5224175567749775 / 9007199254740992)"
  "double_round (5224175567749775 / 9007199254740992) =
     Some (5224175567749775 / 9007199254740992)"
  "rate_count 50 (29 / 50) = Inr 28"
  "rate_count 50 (5224175567749775 / 9007199254740992) = Inr 28"
  "double_round (7 / 10) = Some (3152519739159347 / 4503599627370496)"
  "double_round (3152519739159347 / 4503599627370496) =
     Some (3152519739159347 / 4503599627370496)"
  "rate_count 10 (7 / 10) = Inr 7"
  "rate_count 10 (3152519739159347 / 4503599627370496) = Inr 7"
  "\<lfloor>10 * (3152519739159347 / 4503599627370496 :: real)\<rfloor> = 6"
  by (simp_all add: double_eval)

section \<open>C1: shift\<close>













section \<open>C2: shift_from_file\<close>

text \<open>
  Claim C2 does not hold of the code. \<^verbatim>\<open>shift_from_file\<close> samples positions of the
  intersection table, \<^verbatim>\<open>range(len(intersect_regions))\<close>, and hands them to \<^verbatim>\<open>shift\<close>
  as labels of \<^verbatim>\<open>self.bed\<close>; \<^verbatim>\<open>drop_from_file\<close> translates such positions with
  \<^verbatim>\<open>intersect_regions.index[...]\<close>, \<^verbatim>\<open>shift_from_file\<close> does not. Here the only
  overlapping region is row 1, the position sampled is 0, and the region shifted is
  row 0, which overlaps nothing in the file.
\<close>

theorem shift_from_file_shifts_row_without_overlap:
  "find_overlap ''other.bed'' overlap_demo = Inr [(1, tile 5)]
   \<and> list_ex (overlaps (tile 0))
         [\<lparr>r_chrom = ''chr1'', r_start = 550, r_end = 650, r_tag = ''-''\<rparr>] = False
   \<and> shift_from_file ''other.bed'' (1 / 2) 5 0 overlap_demo =
       (Inr 1, overlap_demo\<lparr>py_random := [], np_random := [],
                  bed := [tile 5,
                          \<lparr>r_chrom = ''chr1'', r_start = 5, r_end = 105, r_tag = ''S''\<rparr>]\<rparr>)"
  by (simp add: shift_from_file_def shift_def precheck_def read_bed_def find_overlap_def
      pr_overlap_first_def overlaps_def random_sample_def py_int_def df_drop_def df_loc_def
      shift_row_def normal_int_def dict_get_def overlap_demo_def tile_def Let_def)

section \<open>C3: the rate 0\<close>

text \<open>
  Claim C3 does not hold of the code. \<^verbatim>\<open>_precheck\<close> asks for the chromosome lengths
  before the rate is looked at, so \<^verbatim>\<open>shift\<close>, \<^verbatim>\<open>add\<close> and \<^verbatim>\<open>add_from_file\<close> with
  the rate 0 fail when the length map is empty, and \<^verbatim>\<open>shift_from_file\<close> with the
  rate 0 fails when nothing overlaps. \<^verbatim>\<open>main\<close> demands the lengths only when the add
  or the shift rate is positive, yet \<^verbatim>\<open>all_perturbations\<close> with nothing but a drop rate
  fails in its first stage, although \<^verbatim>\<open>drop\<close> alone succeeds.
\<close>

theorem rate_zero_fails_without_chrom_lens:
  "chrom_lens triple = []
   \<and> shift 0 0 150 None triple = (Inl MissingChromosomeLengths, triple)
   \<and> add 0 320 30 triple = (Inl MissingChromosomeLengths, triple)
   \<and> add_from_file ''other.bed'' 0 triple = (Inl MissingChromosomeLengths, triple)
   \<and> shift_from_file ''far.bed'' 0 0 150 overlap_demo = (Inl NoOverlapFound, overlap_demo)
   \<and> all_perturbations 0 320 30 None 0 0 150 None 0 0 (1 / 3) None triple =
        (Inl MissingChromosomeLengths, triple)
   \<and> drop_op (1 / 3) triple =
        (Inr 1, triple\<lparr>py_random := [0],
                   bed := [\<lparr>r_chrom = ''chr1'', r_start = 10, r_end = 20, r_tag = ''-''\<rparr>,
                           \<lparr>r_chrom = ''chr2'', r_start = 0, r_end = 10, r_tag = ''-''\<rparr>]\<rparr>)"
  by (simp add: all_perturbations_def given_def shift_def add_def add_from_file_def
      shift_from_file_def drop_op_def precheck_def read_bed_def find_overlap_def
      pr_overlap_first_def overlaps_def random_sample_def py_int_def df_drop_def
      overlap_demo_def triple_def tile_def Let_def rate_count_small)

section \<open>C4: rates outside the unit interval\<close>

text \<open>
  Claim C4, as amended. For \<^verbatim>\<open>shift\<close> (parametric or with a row list),
  \<^verbatim>\<open>shift_from_file\<close>, \<^verbatim>\<open>cut\<close>, \<^verbatim>\<open>merge\<close> and \<^verbatim>\<open>drop\<close>, every rate outside
  \<open>[0,1]\<close> makes the call fail with \<open>InvalidRate\<close> in the state it was entered in: the
  interval set is unchanged and no random number is drawn. \<^verbatim>\<open>drop_from_file\<close> fails
  in this way for every negative rate.
\<close>

theorem invalid_rate_rejected:
  assumes "rate < 0 \<or> 1 < rate"
  shows "shift rate mean stdev shift_rows s = (Inl InvalidRate, s)
       \<and> shift_from_file fp rate mean stdev s = (Inl InvalidRate, s)
       \<and> cut_op rate s = (Inl InvalidRate, s)
       \<and> merge rate s = (Inl InvalidRate, s)
       \<and> drop_op rate s = (Inl InvalidRate, s)
       \<and> (rate < 0 \<longrightarrow> drop_from_file fp rate s = (Inl InvalidRate, s))"
proof -
  have "precheck rate True False s = Inl InvalidRate" "precheck rate False False s = Inl InvalidRate"
    using assms by (auto simp: precheck_def)
  then show ?thesis
    by (simp add: shift_def shift_from_file_def cut_op_def merge_def drop_op_def drop_from_file_def)
qed

text \<open>
  Witness for C4: the rate 1.5 for the five operators, the rate -0.5 for
  \<^verbatim>\<open>drop_from_file\<close>.
\<close>

theorem invalid_rate_rejected_witness:
  "((3 / 2 :: real) < 0 \<or> (1::real) < 3 / 2)
   \<and> shift (3 / 2) 0 150 None overlap_demo = (Inl InvalidRate, overlap_demo)
   \<and> shift_from_file ''other.bed'' (3 / 2) 0 150 overlap_demo = (Inl InvalidRate, overlap_demo)
   \<and> cut_op (3 / 2) overlap_demo = (Inl InvalidRate, overlap_demo)
   \<and> merge (3 / 2) overlap_demo = (Inl InvalidRate, overlap_demo)
   \<and> drop_op (3 / 2) overlap_demo = (Inl InvalidRate, overlap_demo)
   \<and> (- 1 / 2 :: real) < 0
   \<and> drop_from_file ''other.bed'' (- 1 / 2) overlap_demo = (Inl InvalidRate, overlap_demo)"
proof -
  have a: "(3 / 2 :: real) < 0 \<or> (1::real) < 3 / 2" by simp
  have b: "(- 1 / 2 :: real) < 0 \<or> (1::real) < - 1 / 2" by simp
  have c: "(- 1 / 2 :: real) < 0" by simp
  from invalid_rate_rejected[OF a, of 0 150 None overlap_demo "''other.bed''"]
       invalid_rate_rejected[OF b, of 0 150 None overlap_demo "''other.bed''"] a c
  show ?thesis by blast
qed

text \<open>
  Counterexample to C4 as stated: \<^verbatim>\<open>drop_from_file\<close> with the rate 1.5 does not fail;
  it asks for 3 rows, which it cuts back to the one row of the external file, removes
  the overlapping region and returns 1.
\<close>

theorem drop_from_file_accepts_rate_above_one:
  "drop_from_file ''other.bed'' (3 / 2) overlap_demo =
     (Inr 1, overlap_demo\<lparr>py_random := [], bed := [tile 0], warnings := [DropClamped 3 1]\<rparr>)"
  by (simp add: drop_from_file_def read_bed_def find_overlap_def pr_overlap_first_def overlaps_def
      random_sample_def py_int_def df_drop_def overlap_demo_def tile_def Let_def)

section \<open>C5: drop\<close>

text \<open>
  Claim C5, as amended. For every rate in \<open>[0,1]\<close> and every interval set of \<open>n\<close> rows,
  \<open>n\<close> at most \<open>2\<^sup>5\<^sup>3\<close>, \<^verbatim>\<open>drop(rate)\<close> succeeds, removes the rows at \<open>k\<close> distinct
  positions and returns \<open>k\<close>, where \<open>k\<close> is the integer part of the floating-point product
  \<^verbatim>\<open>n * rate\<close>, a number between the floor and the ceiling of the exact product of \<open>n\<close>
  and the rate as a float: the resulting set is the input set without the rows at the
  sampled positions, and it has \<open>n - k\<close> rows. When the rows of the input set are
  pairwise different, the resulting set contains no region identical in
  (chromosome, start, end, tag) to a removed one.
\<close>

theorem drop_removes_sampled_rows:
  assumes "0 \<le> rate" "rate \<le> 1" "length (bed s) \<le> 2 ^ 53"
  shows "\<exists>q p drop_rows s'.
           double_round rate = Some q \<and> 0 \<le> q \<and> q \<le> 1
         \<and> int_times_float (length (bed s)) rate = Some p
         \<and> drop_op rate s = (Inr (int (length drop_rows)), s')
         \<and> int (length drop_rows) = \<lfloor>p\<rfloor>
         \<and> \<lfloor>real (length (bed s)) * q\<rfloor> \<le> \<lfloor>p\<rfloor> \<and> \<lfloor>p\<rfloor> \<le> \<lceil>real (length (bed s)) * q\<rceil>
         \<and> distinct drop_rows \<and> set drop_rows \<subseteq> {..<length (bed s)}
         \<and> bed s' = nths (bed s) (- set drop_rows)
         \<and> length (bed s') = length (bed s) - length drop_rows
         \<and> (distinct (bed s) \<longrightarrow> (\<forall>i\<in>set drop_rows. bed s ! i \<notin> set (bed s')))"
proof -
  let ?n = "length (bed s)"
  have pre: "precheck rate False False s = Inr ()"
    using assms by (simp add: precheck_def)
  from rate_count_unit[OF assms] obtain q p where
    q: "double_round rate = Some q" "0 \<le> q" "q \<le> 1"
    and itf: "int_times_float ?n rate = Some p" and rc: "rate_count ?n rate = Inr \<lfloor>p\<rfloor>"
    and k: "0 \<le> \<lfloor>p\<rfloor>" "\<lfloor>p\<rfloor> \<le> int ?n"
    and near: "\<lfloor>real ?n * q\<rfloor> \<le> \<lfloor>p\<rfloor>" "\<lfloor>p\<rfloor> \<le> \<lceil>real ?n * q\<rceil>"
    by blast
  from random_sample_ok[of "\<lfloor>p\<rfloor>" "[0..<?n]" s] k
  obtain rows tape where
    rs: "random_sample [0..<?n] \<lfloor>p\<rfloor> s = (Inr rows, s\<lparr>py_random := tape\<rparr>)"
    and len: "length rows = nat \<lfloor>p\<rfloor>" and dist: "distinct rows" and sub: "set rows \<subseteq> set [0..<?n]"
    by auto
  have inr: "list_all (\<lambda>l. l < ?n) rows"
    using sub by (auto simp: list_all_iff)
  have dd: "df_drop (bed s) rows = Inr (nths (bed s) (- set rows))"
    using df_drop_nths[OF inr] .
  let ?s' = "s\<lparr>py_random := tape, bed := nths (bed s) (- set rows)\<rparr>"
  have run: "drop_op rate s = (Inr (int (length rows)), ?s')"
    using pre rc rs dd by (simp add: drop_op_def Let_def)
  have sub': "set rows \<subseteq> {..<?n}" using sub by auto
  have lenb: "length (bed ?s') = ?n - length rows"
    using length_nths_compl[OF dist sub'] by simp
  have nodup: "distinct (bed s) \<longrightarrow> (\<forall>i\<in>set rows. bed s ! i \<notin> set (bed ?s'))"
    using nths_compl_distinct_notin[of "bed s" _ "set rows"] sub' by auto
  have cnt: "int (length rows) = \<lfloor>p\<rfloor>"
    using len k by simp
  show ?thesis
    apply (rule exI[of _ q], rule exI[of _ p], rule exI[of _ rows], rule exI[of _ ?s'])
    using q itf run cnt near dist sub' lenb nodup by simp
qed

text \<open>
  Witness for C5: ten regions. With the rate \<^verbatim>\<open>0.2\<close>, the double
  \<open>3602879701896397 / 2\<^sup>5\<^sup>4\<close>, the floating-point product is 2 and \<^verbatim>\<open>drop\<close> removes
  two rows and leaves eight. With the rate \<^verbatim>\<open>0.7\<close>, the double
  \<open>3152519739159347 / 2\<^sup>5\<^sup>2\<close>, the floating-point product is 7 although the exact
  product of 10 and that double is below 7, and \<^verbatim>\<open>drop\<close> removes seven rows and leaves
  three.
\<close>

theorem drop_removes_sampled_rows_witness:
  "(0::real) \<le> 1 / 5 \<and> (1 / 5 :: real) \<le> 1 \<and> (0::real) \<le> 7 / 10 \<and> (7 / 10 :: real) \<le> 1
   \<and> length (bed decade) \<le> 2 ^ 53 \<and> distinct (bed decade)
   \<and> double_round (1 / 5) = Some (3602879701896397 / 18014398509481984)
   \<and> int_times_float 10 (1 / 5) = Some 2
   \<and> (\<exists>(drop_rows :: nat list) s'.
        drop_op (1 / 5) decade = (Inr 2, s')
      \<and> length drop_rows = 2
      \<and> bed s' = nths (bed decade) (- set drop_rows) \<and> length (bed s') = 8
      \<and> (\<forall>i\<in>set drop_rows. bed decade ! i \<notin> set (bed s')))
   \<and> double_round (7 / 10) = Some (3152519739159347 / 4503599627370496)
   \<and> \<lfloor>10 * (3152519739159347 / 4503599627370496 :: real)\<rfloor> = 6
   \<and> int_times_float 10 (7 / 10) = Some 7
   \<and> (\<exists>(drop_rows :: nat list) s'.
        drop_op (7 / 10) decade = (Inr 7, s')
      \<and> length drop_rows = 7
      \<and> bed s' = nths (bed decade) (- set drop_rows) \<and> length (bed s') = 3
      \<and> (\<forall>i\<in>set drop_rows. bed decade ! i \<notin> set (bed s')))"
proof -
  have d: "distinct (bed decade)" by (simp add: decade_def tile_def)
  have n: "length (bed decade) \<le> 2 ^ 53" by (simp add: decade_bed_len)
  have q2: "double_round (1 / 5) = Some (3602879701896397 / 18014398509481984)"
    by (simp add: double_eval)
  have q7: "double_round (7 / 10) = Some (3152519739159347 / 4503599627370496)"
    by (simp add: double_eval)
  have p2: "int_times_float 10 (1 / 5) = Some 2"
    by (simp add: double_eval)
  have p7: "int_times_float 10 (7 / 10) = Some 7"
    by (simp add: double_eval)
  have f6: "\<lfloor>10 * (3152519739159347 / 4503599627370496 :: real)\<rfloor> = 6" by simp
  from drop_removes_sampled_rows[of "1 / 5" decade, OF _ _ n] d p2
  have two: "\<exists>(drop_rows :: nat list) s'.
        drop_op (1 / 5) decade = (Inr 2, s')
      \<and> length drop_rows = 2
      \<and> bed s' = nths (bed decade) (- set drop_rows) \<and> length (bed s') = 8
      \<and> (\<forall>i\<in>set drop_rows. bed decade ! i \<notin> set (bed s'))"
    by (auto simp: decade_bed_len)
  from drop_removes_sampled_rows[of "7 / 10" decade, OF _ _ n] d p7
  have seven: "\<exists>(drop_rows :: nat list) s'.
        drop_op (7 / 10) decade = (Inr 7, s')
      \<and> length drop_rows = 7
      \<and> bed s' = nths (bed decade) (- set drop_rows) \<and> length (bed s') = 3
      \<and> (\<forall>i\<in>set drop_rows. bed decade ! i \<notin> set (bed s'))"
    by (auto simp: decade_bed_len)
  from d n q2 q7 p2 p7 f6 two seven show ?thesis by simp
qed

text \<open>
  Counterexample to C5 as stated: on a set that lists the region \<open>chr1 [0,100)\<close> twice,
  \<^verbatim>\<open>drop(0.5)\<close> removes one of the two rows, and the row left is identical to the
  removed one.
\<close>

theorem drop_keeps_identical_region:
  "drop_op (1 / 2) twins = (Inr 1, twins\<lparr>py_random := [], bed := [tile 0]\<rparr>)
   \<and> bed twins = [tile 0, tile 0]"
  by (simp add: drop_op_def precheck_def random_sample_def rate_count_small df_drop_def
      twins_def Let_def)

section \<open>C6: merge\<close>






section \<open>C7: cut\<close>





section \<open>C8: add\<close>

lemma choices_loop_props:
  "population \<noteq> [] \<Longrightarrow> choices_loop population cum k tape = (res, tape') \<Longrightarrow>
   length res = k \<and> set res \<subseteq> set population"
proof (induction k arbitrary: tape res tape')
  case 0
  then show ?case by simp
next
  case (Suc k)
  obtain t tape1 where d: "draw tape = (t, tape1)" by (cases "draw tape")
  obtain r2 t2 where rec: "choices_loop population cum k tape1 = (r2, t2)"
    by (cases "choices_loop population cum k tape1")
  define i where
    "i = bisect cum (real_of_int (t mod 9007199254740992) / 9007199254740992 * last cum)
           (length population - 1)"
  have "i \<le> length population - 1" by (simp add: i_def bisect_def)
  with Suc.prems(1) have "i < length population"
    by (cases population) simp_all
  moreover have "res = population ! i # r2"
    using Suc.prems(2) d rec by (simp add: i_def Let_def)
  moreover from Suc.IH[OF Suc.prems(1) rec] have "length r2 = k" "set r2 \<subseteq> set population"
    by simp_all
  ultimately show ?case by auto
qed

lemma random_choices_Inr:
  assumes "random_choices population weights k s = (Inr res, s1)"
  shows "length res = nat k" "set res \<subseteq> set population" "\<exists>tape. s1 = s\<lparr>py_random := tape\<rparr>"
proof -
  let ?cum = "accumulate 0 weights"
  from assms have ne: "?cum \<noteq> []" and len: "length ?cum = length population"
    by (auto simp: random_choices_def Let_def split: if_splits)
  then have pne: "population \<noteq> []" by auto
  obtain r tape where cl: "choices_loop population ?cum (nat k) (py_random s) = (r, tape)"
    by (cases "choices_loop population ?cum (nat k) (py_random s)")
  with assms have eq: "res = r" "s1 = s\<lparr>py_random := tape\<rparr>"
    by (auto simp: random_choices_def Let_def split: if_splits)
  from choices_loop_props[OF pne cl] eq
  show "length res = nat k" "set res \<subseteq> set population" "\<exists>tape. s1 = s\<lparr>py_random := tape\<rparr>"
    by auto
qed

lemma lookup_all_Inr:
  "lookup_all d strs = Inr lens \<Longrightarrow> list_all2 (\<lambda>c l. dict_get d c = Inr l) strs lens"
  by (induction strs arbitrary: lens) (auto split: sum.splits)

lemma pick_random_chroms_Inr:
  assumes "pick_random_chroms n s = (Inr rc, s1)"
  shows "length rc = nat n" "\<forall>(c, l)\<in>set rc. dict_get (chrom_lens s) c = Inr l"
    "\<exists>tape. s1 = s\<lparr>py_random := tape\<rparr>"
proof -
  obtain strs s0 where ch:
    "random_choices (map fst (chrom_lens s)) (chrom_weights s) n s = (Inr strs, s0)"
    using assms
    by (cases "random_choices (map fst (chrom_lens s)) (chrom_weights s) n s")
       (auto simp: pick_random_chroms_def split: sum.splits)
  from random_choices_Inr[OF ch] obtain tape where
    r: "length strs = nat n" "s0 = s\<lparr>py_random := tape\<rparr>" by blast
  obtain lens where la: "lookup_all (chrom_lens s) strs = Inr lens"
    using assms ch r(2)
    by (cases "lookup_all (chrom_lens s) strs") (auto simp: pick_random_chroms_def)
  with assms ch r(2) have rc: "rc = zip strs lens" and s1: "s1 = s0"
    by (auto simp: pick_random_chroms_def)
  from lookup_all_Inr[OF la] have all2: "list_all2 (\<lambda>c l. dict_get (chrom_lens s) c = Inr l) strs lens" .
  then have "length strs = length lens" by (rule list_all2_lengthD)
  with r(1) rc show "length rc = nat n" by simp
  from all2 rc show "\<forall>(c, l)\<in>set rc. dict_get (chrom_lens s) c = Inr l"
    by (auto simp: list_all2_conv_all_nth in_set_zip)
  from s1 r(2) show "\<exists>tape. s1 = s\<lparr>py_random := tape\<rparr>" by blast
qed

lemma random_randint_Inr:
  assumes "random_randint a b s = (Inr v, s1)"
  shows "a \<le> v" "v \<le> b" "\<exists>tape. s1 = s\<lparr>py_random := tape\<rparr>"
proof -
  from assms have ab: "a \<le> b" by (auto simp: random_randint_def split: if_splits)
  obtain t tape where d: "draw (py_random s) = (t, tape)" by (cases "draw (py_random s)")
  with assms ab have v: "v = a + t mod (b - a + 1)" and s1: "s1 = s\<lparr>py_random := tape\<rparr>"
    by (auto simp: random_randint_def)
  have pos: "0 < b - a + 1" using ab by simp
  have "0 \<le> t mod (b - a + 1)" "t mod (b - a + 1) < b - a + 1"
    using pos_mod_sign[OF pos, of t] pos_mod_bound[OF pos, of t] by blast+
  with v show "a \<le> v" "v \<le> b" by linarith+
  from s1 show "\<exists>tape. s1 = s\<lparr>py_random := tape\<rparr>" by blast
qed

lemma add_loop_Inr:
  "add_loop rc addmean addstdev acc s = (Inr res, s2) \<Longrightarrow>
   \<exists>new ptape ntape.
      res = acc @ new \<and> length new = length rc
    \<and> (\<forall>r\<in>set new. r_tag r = ''A'' \<and>
          (\<exists>l. (r_chrom r, l) \<in> set rc \<and> 1 \<le> r_start r \<and> r_start r \<le> l \<and> r_end r \<le> l))
    \<and> s2 = s\<lparr>py_random := ptape, np_random := ntape\<rparr>"
proof (induction rc arbitrary: acc s)
  case Nil
  then have "res = acc @ []" "s2 = s\<lparr>py_random := py_random s, np_random := np_random s\<rparr>"
    by simp_all
  then show ?case by (metis empty_iff list.size(3) set_empty2)
next
  case (Cons p rest)
  obtain chrom_str chrom_len where p: "p = (chrom_str, chrom_len)" by (cases p)
  obtain start s1 where ri: "random_randint 1 chrom_len s = (Inr start, s1)"
    using Cons.prems p
    by (cases "random_randint 1 chrom_len s") (auto split: sum.splits)
  from random_randint_Inr[OF ri] obtain pt1 where
    st: "1 \<le> start" "start \<le> chrom_len" and s1: "s1 = s\<lparr>py_random := pt1\<rparr>" by blast
  obtain len s2' where ni: "normal_int addmean addstdev s1 = (Inr len, s2')"
    using Cons.prems p ri
    by (cases "normal_int addmean addstdev s1") (auto split: sum.splits)
  from normal_int_frame[OF ni] obtain nt1 where s2': "s2' = s1\<lparr>np_random := nt1\<rparr>" by blast
  let ?r = "\<lparr>r_chrom = chrom_str, r_start = start,
             r_end = min (start + len) chrom_len, r_tag = ''A''\<rparr>"
  from Cons.prems p ri ni have
    "add_loop rest addmean addstdev (acc @ [?r]) s2' = (Inr res, s2)" by simp
  from Cons.IH[OF this] obtain new ptape ntape where
    ih: "res = (acc @ [?r]) @ new" "length new = length rest"
        "\<forall>r\<in>set new. r_tag r = ''A'' \<and>
          (\<exists>l. (r_chrom r, l) \<in> set rest \<and> 1 \<le> r_start r \<and> r_start r \<le> l \<and> r_end r \<le> l)"
        "s2 = s2'\<lparr>py_random := ptape, np_random := ntape\<rparr>"
    by blast
  have head: "r_tag ?r = ''A'' \<and>
          (\<exists>l. (r_chrom ?r, l) \<in> set (p # rest) \<and> 1 \<le> r_start ?r \<and> r_start ?r \<le> l \<and> r_end ?r \<le> l)"
    using st p by (auto intro!: exI[of _ chrom_len])
  show ?case
    apply (rule exI[of _ "?r # new"], rule exI[of _ ptape], rule exI[of _ ntape])
    using ih head s1 s2' by auto
qed

lemma add_result:
  assumes "add rate mean stdev s = (Inr n, s')"
  shows "chrom_lens s \<noteq> []
       \<and> (\<exists>p. int_times_float (length (bed s)) rate = Some p \<and> n = \<lfloor>p\<rfloor>)
       \<and> 0 \<le> n
       \<and> (\<exists>new_regions.
             bed s' = bed s @ new_regions \<and> int (length new_regions) = n
           \<and> (\<forall>r\<in>set new_regions.
                 r_tag r = ''A'' \<and>
                 (\<exists>chrom_len. dict_get (chrom_lens s) (r_chrom r) = Inr chrom_len
                    \<and> 1 \<le> r_start r \<and> r_start r \<le> chrom_len \<and> r_end r \<le> chrom_len)))"
proof -
  have pre: "precheck rate True True s = Inr ()"
    using assms by (cases "precheck rate True True s") (auto simp: add_def)
  then have rate: "0 \<le> rate" and ne: "chrom_lens s \<noteq> []"
    by (auto simp: precheck_def split: if_splits)
  obtain k where rc0: "rate_count (length (bed s)) rate = Inr k"
    using assms pre
    by (cases "rate_count (length (bed s)) rate") (auto simp: add_def Let_def)
  from rate_count_Inr[OF rate rc0] obtain p where
    itf: "int_times_float (length (bed s)) rate = Some p" and k: "k = \<lfloor>p\<rfloor>" "0 \<le> k"
    by blast
  obtain rc s1 where pr: "pick_random_chroms k s = (Inr rc, s1)"
    using assms pre rc0
    by (cases "pick_random_chroms k s") (auto simp: add_def Let_def split: sum.splits)
  from pick_random_chroms_Inr[OF pr] obtain tape where
    rc: "length rc = nat k" "\<forall>(c, l)\<in>set rc. dict_get (chrom_lens s) c = Inr l"
    and s1: "s1 = s\<lparr>py_random := tape\<rparr>" by blast
  obtain new s2 where al: "add_loop rc mean stdev [] s1 = (Inr new, s2)"
    using assms pre rc0 pr
    by (cases "add_loop rc mean stdev [] s1") (auto simp: add_def Let_def split: sum.splits)
  from add_loop_Inr[OF al] obtain ptape ntape where
    new: "length new = length rc"
      "\<forall>r\<in>set new. r_tag r = ''A'' \<and>
          (\<exists>l. (r_chrom r, l) \<in> set rc \<and> 1 \<le> r_start r \<and> r_start r \<le> l \<and> r_end r \<le> l)"
    and s2: "s2 = s1\<lparr>py_random := ptape, np_random := ntape\<rparr>"
    by auto
  from assms pre rc0 pr al have res: "n = k" "s' = s2\<lparr>bed := bed s2 @ new\<rparr>"
    by (auto simp: add_def Let_def)
  have bed': "bed s' = bed s @ new" using res(2) s2 s1 by simp
  have len: "int (length new) = n" using new(1) rc(1) k(2) res(1) by simp
  have props: "\<forall>r\<in>set new. r_tag r = ''A'' \<and>
                 (\<exists>chrom_len. dict_get (chrom_lens s) (r_chrom r) = Inr chrom_len
                    \<and> 1 \<le> r_start r \<and> r_start r \<le> chrom_len \<and> r_end r \<le> chrom_len)"
    using new(2) rc(2) by fastforce
  have "\<exists>p. int_times_float (length (bed s)) rate = Some p \<and> n = \<lfloor>p\<rfloor>"
    using itf k(1) res(1) by blast
  moreover have "0 \<le> n" using k(2) res(1) by simp
  ultimately show ?thesis using ne bed' len props by blast
qed

lemma length_accumulate: "length (accumulate a ws) = length ws"
  by (induction ws arbitrary: a) simp_all

lemma last_accumulate: "ws \<noteq> [] \<Longrightarrow> last (accumulate a ws) = a + sum_list ws"
proof (induction ws arbitrary: a)
  case Nil
  then show ?case by simp
next
  case (Cons w ws)
  show ?case
  proof (cases ws)
    case Nil
    then show ?thesis by simp
  next
    case (Cons v vs)
    then have "accumulate (a + w) ws \<noteq> []" by simp
    with Cons.IH[of "a + w"] Cons show ?thesis by (simp add: add.assoc)
  qed
qed

lemma random_choices_ok:
  assumes "length weights = length population" "population \<noteq> []" "0 < sum_list weights"
  shows "\<exists>res s1. random_choices population weights k s = (Inr res, s1)"
proof -
  let ?cum = "accumulate 0 weights"
  have w: "weights \<noteq> []" using assms(1,2) by auto
  have "length ?cum = length population" using assms(1) by (simp add: length_accumulate)
  moreover have "?cum \<noteq> []" using w by (cases weights) simp_all
  moreover have "\<not> last ?cum \<le> 0" using last_accumulate[OF w, of 0] assms(3) by simp
  ultimately show ?thesis
    by (cases "choices_loop population ?cum (nat k) (py_random s)")
       (simp add: random_choices_def Let_def)
qed

lemma lookup_all_ok: "set strs \<subseteq> fst ` set d \<Longrightarrow> \<exists>lens. lookup_all d strs = Inr lens"
proof (induction strs)
  case Nil
  then show ?case by simp
next
  case (Cons c rest)
  from Cons.prems have "c \<in> fst ` set d" by simp
  from dict_get_ok[OF this] obtain v where "dict_get d c = Inr v" by blast
  moreover from Cons have "\<exists>lens. lookup_all d rest = Inr lens" by simp
  ultimately show ?case by auto
qed

lemma random_choices_chrom_lens:
  "random_choices pop w k s = (r, s1) \<Longrightarrow> chrom_lens s1 = chrom_lens s"
  by (auto simp: random_choices_def Let_def split: if_splits prod.splits)

lemma pick_random_chroms_ok:
  assumes "length (chrom_weights s) = length (chrom_lens s)" "chrom_lens s \<noteq> []"
    "0 < sum_list (chrom_weights s)"
  shows "\<exists>rc s1. pick_random_chroms n s = (Inr rc, s1)"
proof -
  from random_choices_ok[of "chrom_weights s" "map fst (chrom_lens s)" n s] assms
  obtain strs s0 where
    ch: "random_choices (map fst (chrom_lens s)) (chrom_weights s) n s = (Inr strs, s0)"
    by auto
  from random_choices_Inr(2)[OF ch] have "set strs \<subseteq> fst ` set (chrom_lens s)" by simp
  then have "set strs \<subseteq> fst ` set (chrom_lens s0)"
    using random_choices_chrom_lens[OF ch] by simp
  from lookup_all_ok[OF this] obtain lens where "lookup_all (chrom_lens s0) strs = Inr lens"
    by blast
  with ch show ?thesis by (simp add: pick_random_chroms_def)
qed

lemma random_randint_ok: "a \<le> b \<Longrightarrow> \<exists>v s1. random_randint a b s = (Inr v, s1)"
  by (cases "draw (py_random s)") (simp add: random_randint_def)

lemma add_loop_ok:
  assumes "0 \<le> addstdev"
  shows "\<forall>(c, l)\<in>set rc. 1 \<le> l \<Longrightarrow> \<exists>res s2. add_loop rc addmean addstdev acc s = (Inr res, s2)"
proof (induction rc arbitrary: acc s)
  case Nil
  then show ?case by simp
next
  case (Cons p rest)
  obtain c l where p: "p = (c, l)" by (cases p)
  with Cons.prems have l: "1 \<le> l" and rest: "\<forall>(c, l)\<in>set rest. 1 \<le> l" by auto
  from random_randint_ok[OF l, of s] obtain start s1 where
    ri: "random_randint 1 l s = (Inr start, s1)" by blast
  from normal_int_ok[OF assms, of addmean s1] obtain len s2 where
    ni: "normal_int addmean addstdev s1 = (Inr len, s2)" by blast
  from Cons.IH[OF rest] ri ni p show ?case by simp
qed

lemma add_returns:
  assumes "0 \<le> rate" "0 \<le> stdev" "chrom_lens s \<noteq> []"
    "\<forall>(c, l)\<in>set (chrom_lens s). 1 \<le> l"
    "length (chrom_weights s) = length (chrom_lens s)" "0 < sum_list (chrom_weights s)"
    "rate \<le> real m" "length (bed s) \<le> 2 ^ 53" "length (bed s) * m \<le> 2 ^ 53" "m \<le> 2 ^ 53"
  shows "\<exists>n s' q. add rate mean stdev s = (Inr n, s') \<and> double_round rate = Some q
           \<and> \<lfloor>real (length (bed s)) * q\<rfloor> \<le> n \<and> n \<le> \<lceil>real (length (bed s)) * q\<rceil>"
proof -
  have pre: "precheck rate True True s = Inr ()"
    using assms(1,3) by (simp add: precheck_def)
  from rate_count_near[OF assms(1,7,8,9,10)] obtain q k where
    q: "double_round rate = Some q"
    and rc0: "rate_count (length (bed s)) rate = Inr k"
    and near: "\<lfloor>real (length (bed s)) * q\<rfloor> \<le> k" "k \<le> \<lceil>real (length (bed s)) * q\<rceil>"
    by blast
  from pick_random_chroms_ok[OF assms(5,3,6), of k] obtain rc s1 where
    pr: "pick_random_chroms k s = (Inr rc, s1)" by blast
  have "\<forall>(c, l)\<in>set rc. 1 \<le> l"
  proof -
    { fix c l assume "(c, l) \<in> set rc"
      with pick_random_chroms_Inr(2)[OF pr] have "dict_get (chrom_lens s) c = Inr l" by auto
      then have "map_of (chrom_lens s) c = Some l"
        by (auto simp: dict_get_def split: option.splits)
      then have "(c, l) \<in> set (chrom_lens s)" by (rule map_of_SomeD)
      with assms(4) have "1 \<le> l" by auto }
    then show ?thesis by auto
  qed
  from add_loop_ok[OF assms(2) this, of mean "[]" s1] obtain new s2 where
    al: "add_loop rc mean stdev [] s1 = (Inr new, s2)" by blast
  have "add rate mean stdev s = (Inr k, s2\<lparr>bed := bed s2 @ new\<rparr>)"
    using pre rc0 pr al by (simp add: add_def Let_def)
  with q near show ?thesis by blast
qed

lemma length_le_sum_list:
  "\<forall>x\<in>set xs. (1::int) \<le> x \<Longrightarrow> int (length xs) \<le> sum_list xs"
  by (induction xs) auto

lemma sum_list_div_const:
  "sum_list (map (\<lambda>l. real_of_int l / d) xs) = real_of_int (sum_list xs) / d"
  by (induction xs) (simp_all add: add_divide_distrib)

lemma read_chromsizes_weights_ok:
  assumes "lens \<noteq> []" "\<forall>(c, l)\<in>set lens. 1 \<le> l"
  shows "length (read_chromsizes_weights lens) = length lens"
    and "sum_list (read_chromsizes_weights lens) = 1"
proof -
  let ?t = "sum_list (map snd lens)"
  show "length (read_chromsizes_weights lens) = length lens"
    by (simp add: read_chromsizes_weights_def Let_def)
  have pos_all: "\<forall>x\<in>set (map snd lens). 1 \<le> x" using assms(2) by auto
  have "int (length (map snd lens)) \<le> ?t"
    using pos_all by (rule length_le_sum_list)
  with assms(1) have tpos: "0 < ?t" by (cases lens) auto
  have "sum_list (read_chromsizes_weights lens)
        = sum_list (map (\<lambda>l. real_of_int l / real_of_int ?t) (map snd lens))"
    by (simp add: read_chromsizes_weights_def Let_def comp_def case_prod_unfold)
  also have "\<dots> = real_of_int ?t / real_of_int ?t"
    by (rule sum_list_div_const)
  also have "\<dots> = 1" using tpos by simp
  finally show "sum_list (read_chromsizes_weights lens) = 1" .
qed

text \<open>
  Claim C8. A call of \<^verbatim>\<open>add(rate, mean, stdev)\<close> returns whenever the rate and the
  deviation are not negative, the length map is not empty, holds positive lengths
  only and comes with the weights \<^verbatim>\<open>_read_chromsizes\<close> computes, and the rate is at
  most a whole number \<open>m\<close> such that neither \<open>m\<close>, nor the number of rows, nor their
  product exceeds \<open>2\<^sup>5\<^sup>3\<close>; the count it returns is then between the floor and the
  ceiling of the exact product of the number of rows and the rate as a float. Whenever
  a call returns, the length map is not empty, the call returns
  \<open>k = floor(rows * rate)\<close>, the product being the floating-point product the program
  computes, and the resulting set is the input set followed by \<open>k\<close> new regions; each
  new region has the mark \<^verbatim>\<open>'A'\<close>, lies on a chromosome of the map, has its start in
  \<open>[1, chromLen]\<close> and its end at most \<open>chromLen\<close> (nothing is said of the end being
  greater than the start).
\<close>

theorem add_within_chromosome:
  "(0 \<le> rate \<and> 0 \<le> stdev \<and> chrom_lens s \<noteq> [] \<and> (\<forall>(c, l)\<in>set (chrom_lens s). 1 \<le> l)
      \<and> chrom_weights s = read_chromsizes_weights (chrom_lens s)
      \<and> rate \<le> real m \<and> length (bed s) \<le> 2 ^ 53 \<and> length (bed s) * m \<le> 2 ^ 53
      \<and> m \<le> 2 ^ 53
    \<longrightarrow> (\<exists>n s' q. add rate mean stdev s = (Inr n, s') \<and> double_round rate = Some q
           \<and> \<lfloor>real (length (bed s)) * q\<rfloor> \<le> n \<and> n \<le> \<lceil>real (length (bed s)) * q\<rceil>))
 \<and> (\<forall>n s'. add rate mean stdev s = (Inr n, s') \<longrightarrow>
         chrom_lens s \<noteq> []
       \<and> (\<exists>p. int_times_float (length (bed s)) rate = Some p \<and> n = \<lfloor>p\<rfloor>)
       \<and> 0 \<le> n
       \<and> (\<exists>new_regions.
             bed s' = bed s @ new_regions \<and> int (length new_regions) = n
           \<and> (\<forall>r\<in>set new_regions.
                 r_tag r = ''A'' \<and>
                 (\<exists>chrom_len. dict_get (chrom_lens s) (r_chrom r) = Inr chrom_len
                    \<and> 1 \<le> r_start r \<and> r_start r \<le> chrom_len \<and> r_end r \<le> chrom_len))))"
proof (intro conjI impI allI)
  assume a: "0 \<le> rate \<and> 0 \<le> stdev \<and> chrom_lens s \<noteq> [] \<and> (\<forall>(c, l)\<in>set (chrom_lens s). 1 \<le> l)
      \<and> chrom_weights s = read_chromsizes_weights (chrom_lens s)
      \<and> rate \<le> real m \<and> length (bed s) \<le> 2 ^ 53 \<and> length (bed s) * m \<le> 2 ^ 53
      \<and> m \<le> 2 ^ 53"
  then have "length (chrom_weights s) = length (chrom_lens s)" "0 < sum_list (chrom_weights s)"
    using read_chromsizes_weights_ok[of "chrom_lens s"] by simp_all
  with a show "\<exists>n s' q. add rate mean stdev s = (Inr n, s') \<and> double_round rate = Some q
           \<and> \<lfloor>real (length (bed s)) * q\<rfloor> \<le> n \<and> n \<le> \<lceil>real (length (bed s)) * q\<rceil>"
    using add_returns[of rate stdev s m mean] by blast
next
  fix n s'
  assume "add rate mean stdev s = (Inr n, s')"
  from add_result[OF this]
  show "chrom_lens s \<noteq> []"
    "\<exists>p. int_times_float (length (bed s)) rate = Some p \<and> n = \<lfloor>p\<rfloor>"
    "0 \<le> n"
    "\<exists>new_regions.
             bed s' = bed s @ new_regions \<and> int (length new_regions) = n
           \<and> (\<forall>r\<in>set new_regions.
                 r_tag r = ''A'' \<and>
                 (\<exists>chrom_len. dict_get (chrom_lens s) (r_chrom r) = Inr chrom_len
                    \<and> 1 \<le> r_start r \<and> r_start r \<le> chrom_len \<and> r_end r \<le> chrom_len))"
    by blast+
qed

lemma genome_add_run:
  "add (1 / 2) 320 30 genome =
     (Inr 2, genome\<lparr>py_random := [], np_random := [],
                bed := map tile [0, 1, 2, 3] @
                       [\<lparr>r_chrom = ''chr1'', r_start = 701, r_end = 1000, r_tag = ''A''\<rparr>,
                        \<lparr>r_chrom = ''chr2'', r_start = 201, r_end = 500, r_tag = ''A''\<rparr>]\<rparr>)"
  by (simp add: add_def precheck_def pick_random_chroms_def random_choices_def py_int_def
      rate_count_small bisect_def random_randint_def normal_int_def dict_get_def genome_def
      Let_def numeral_2_eq_2)

text \<open>
  Witness for C8: \<^verbatim>\<open>add(0.5, 320, 30)\<close> on four regions adds two, the floating-point
  product of 4 and 0.5; the drawn lengths 320 and 300 would end beyond the chromosomes,
  and both ends are cut back to the lengths 1000 and 500.
\<close>

theorem add_within_chromosome_witness:
  "(0::real) \<le> 1 / 2 \<and> (0::real) \<le> 30 \<and> chrom_lens genome \<noteq> []
   \<and> list_all (\<lambda>(c, l). 1 \<le> l) (chrom_lens genome)
   \<and> chrom_weights genome = read_chromsizes_weights (chrom_lens genome)
   \<and> (1 / 2 :: real) \<le> real (Suc 0) \<and> length (bed genome) \<le> 2 ^ 53
   \<and> length (bed genome) * Suc 0 \<le> 2 ^ 53 \<and> Suc 0 \<le> 2 ^ 53
   \<and> add (1 / 2) 320 30 genome =
     (Inr 2, genome\<lparr>py_random := [], np_random := [],
                bed := map tile [0, 1, 2, 3] @
                       [\<lparr>r_chrom = ''chr1'', r_start = 701, r_end = 1000, r_tag = ''A''\<rparr>,
                        \<lparr>r_chrom = ''chr2'', r_start = 201, r_end = 500, r_tag = ''A''\<rparr>]\<rparr>)
   \<and> (\<exists>p. int_times_float (length (bed genome)) (1 / 2) = Some p \<and> (2::int) = \<lfloor>p\<rfloor>)
   \<and> int_times_float 4 (1 / 2) = Some 2
   \<and> dict_get (chrom_lens genome) ''chr1'' = Inr 1000
   \<and> dict_get (chrom_lens genome) ''chr2'' = Inr 500"
proof -
  from add_within_chromosome[of "1 / 2" 30 genome "Suc 0" 320] genome_add_run
  have "chrom_lens genome \<noteq> []"
    "\<exists>p. int_times_float (length (bed genome)) (1 / 2) = Some p \<and> (2::int) = \<lfloor>p\<rfloor>"
    by blast+
  moreover have "dict_get (chrom_lens genome) ''chr1'' = Inr 1000"
    "dict_get (chrom_lens genome) ''chr2'' = Inr 500"
    by (simp_all add: genome_def dict_get_def)
  moreover have "(0::real) \<le> 1 / 2" "(0::real) \<le> 30"
    "list_all (\<lambda>(c, l). 1 \<le> l) (chrom_lens genome)"
    "chrom_weights genome = read_chromsizes_weights (chrom_lens genome)"
    "(1 / 2 :: real) \<le> real (Suc 0)" "length (bed genome) \<le> 2 ^ 53"
    "length (bed genome) * Suc 0 \<le> 2 ^ 53" "Suc 0 \<le> 2 ^ 53"
    by (simp_all add: genome_def read_chromsizes_weights_def)
  moreover have "int_times_float 4 (1 / 2) = Some 2" by (simp add: double_eval)
  ultimately show ?thesis using genome_add_run by simp
qed

section \<open>C9: failures leave the interval set as it was\<close>

text \<open>
  Claim C9. For every operator (\<^verbatim>\<open>add\<close>, \<^verbatim>\<open>add_from_file\<close>, \<^verbatim>\<open>shift\<close>,
  \<^verbatim>\<open>shift_from_file\<close>, \<^verbatim>\<open>cut\<close>, \<^verbatim>\<open>merge\<close>, \<^verbatim>\<open>drop\<close>, \<^verbatim>\<open>drop_from_file\<close>) and
  every failure, of whatever kind, the working interval set in the state the failure
  leaves equals the working interval set at entry to the operator.
\<close>

theorem errors_leave_bed_unchanged:
  "(\<forall>e s'. add rate mean stdev s = (Inl e, s') \<longrightarrow> bed s' = bed s)
 \<and> (\<forall>e s'. add_from_file fp rate s = (Inl e, s') \<longrightarrow> bed s' = bed s)
 \<and> (\<forall>e s'. shift rate mean stdev shift_rows s = (Inl e, s') \<longrightarrow> bed s' = bed s)
 \<and> (\<forall>e s'. shift_from_file fp rate mean stdev s = (Inl e, s') \<longrightarrow> bed s' = bed s)
 \<and> (\<forall>e s'. cut_op rate s = (Inl e, s') \<longrightarrow> bed s' = bed s)
 \<and> (\<forall>e s'. merge rate s = (Inl e, s') \<longrightarrow> bed s' = bed s)
 \<and> (\<forall>e s'. drop_op rate s = (Inl e, s') \<longrightarrow> bed s' = bed s)
 \<and> (\<forall>e s'. drop_from_file fp rate s = (Inl e, s') \<longrightarrow> bed s' = bed s)"
  by (intro conjI allI impI)
     (erule add_Inl add_from_file_Inl shift_Inl shift_from_file_Inl cut_op_Inl merge_Inl
        drop_op_Inl drop_from_file_Inl)+

lemma demo_errors:
  "add (- 1) 320 30 overlap_demo = (Inl InvalidRate, overlap_demo)"
  "add 1 320 30 triple = (Inl MissingChromosomeLengths, triple)"
  "add_from_file ''missing.bed'' 1 overlap_demo = (Inl UnreadableInput, overlap_demo)"
  "shift (1 / 2) 0 150 None triple = (Inl MissingChromosomeLengths, triple)"
  "shift 1 0 150 (Some [7]) overlap_demo = (Inl KeyError, overlap_demo\<lparr>np_random := []\<rparr>)"
  "shift_from_file ''other.bed'' 1 0 150 overlap_demo = (Inl (InsufficientOverlap 1 2), overlap_demo)"
  "shift_from_file ''far.bed'' 1 0 150 overlap_demo = (Inl NoOverlapFound, overlap_demo)"
  "cut_op 2 overlap_demo = (Inl InvalidRate, overlap_demo)"
  "merge 2 overlap_demo = (Inl InvalidRate, overlap_demo)"
  "drop_op 2 overlap_demo = (Inl InvalidRate, overlap_demo)"
  "drop_from_file ''far.bed'' (1 / 2) overlap_demo =
     (Inl NoOverlapFound, overlap_demo\<lparr>warnings := [DropClamped 1 1]\<rparr>)"
  by (simp_all add: add_def add_from_file_def shift_def shift_from_file_def cut_op_def merge_def
      drop_op_def drop_from_file_def precheck_def read_bed_def find_overlap_def
      pr_overlap_first_def overlaps_def random_sample_def py_int_def df_drop_def df_loc_def
      shift_row_def normal_int_def overlap_demo_def triple_def tile_def Let_def)

text \<open>
  Witness for C9: failures of each kind. Two of them come after the state has changed
  (a shift has been drawn, a warning has been logged); the interval set is the one at
  entry all the same.
\<close>

theorem errors_leave_bed_unchanged_witness:
  "add 1 320 30 triple = (Inl MissingChromosomeLengths, triple)
   \<and> add_from_file ''missing.bed'' 1 overlap_demo = (Inl UnreadableInput, overlap_demo)
   \<and> shift 1 0 150 (Some [7]) overlap_demo = (Inl KeyError, overlap_demo\<lparr>np_random := []\<rparr>)
   \<and> bed (overlap_demo\<lparr>np_random := []\<rparr>) = bed overlap_demo
   \<and> shift_from_file ''other.bed'' 1 0 150 overlap_demo =
         (Inl (InsufficientOverlap 1 2), overlap_demo)
   \<and> cut_op 2 overlap_demo = (Inl InvalidRate, overlap_demo)
   \<and> merge 2 overlap_demo = (Inl InvalidRate, overlap_demo)
   \<and> drop_op 2 overlap_demo = (Inl InvalidRate, overlap_demo)
   \<and> drop_from_file ''far.bed'' (1 / 2) overlap_demo =
         (Inl NoOverlapFound, overlap_demo\<lparr>warnings := [DropClamped 1 1]\<rparr>)
   \<and> bed (overlap_demo\<lparr>warnings := [DropClamped 1 1]\<rparr>) = bed overlap_demo"
proof -
  from errors_leave_bed_unchanged[of 1 0 150 overlap_demo "''far.bed''" "Some [7]"] demo_errors(5)
  have a: "bed (overlap_demo\<lparr>np_random := []\<rparr>) = bed overlap_demo"
    by blast
  from errors_leave_bed_unchanged[of "1 / 2" 0 150 overlap_demo "''far.bed''" None] demo_errors(11)
  have b: "bed (overlap_demo\<lparr>warnings := [DropClamped 1 1]\<rparr>) = bed overlap_demo"
    by blast
  from a b demo_errors show ?thesis by blast
qed

section \<open>C10: drop_from_file with the rate 0\<close>





end
